theory Spec2Isabelle
  imports Main "HOL-Library.Word"
begin

section \<open>Data model (server.go)\<close>

text \<open>
  Go's \<open>int\<close> on a 64-bit platform is a 64-bit two's complement integer; \<open>sint\<close> reads
  its value. A Go string is a sequence of bytes, here a \<open>string\<close> (a \<open>char list\<close>).
  A slice \<open>[]string\<close> is \<open>None\<close> when it is \<open>nil\<close> and \<open>Some xs\<close> otherwise, so that
  the empty non-nil slice \<open>Some []\<close> differs from \<open>nil\<close>, as it does for
  \<open>reflect.DeepEqual\<close> and for \<open>ticket.Items == nil\<close>.
\<close>

type_synonym go_int = "64 word"

definition STATUS_PENDING :: go_int where
  "STATUS_PENDING = 0"

definition STATUS_ACCEPTED :: go_int where
  "STATUS_ACCEPTED = 1"

definition STATUS_COMPLETED :: go_int where
  "STATUS_COMPLETED = 2"

record Ticket =
  ID :: go_int
  Status :: go_int
  Items :: "string list option"

text \<open>The zero value \<open>Ticket{}\<close>.\<close>

definition zero_Ticket :: Ticket where
  "zero_Ticket = \<lparr>ID = 0, Status = 0, Items = None\<rparr>"

datatype CreateTicketResponse = CreateTicketResponse go_int

text \<open>
  Every error value the program can meet. The handlers only test \<open>err != nil\<close>; the
  constructors keep apart where an error comes from.
\<close>

datatype error =
    NumError
  | SyntaxError
  | UnmarshalTypeError
  | UnknownField string
  | UnableToUnmarshal error
  | EmptyFields
  | NoTicket go_int

section \<open>strconv: decimal integers\<close>

text \<open>
  \<open>strconv.Atoi\<close> and \<open>strconv.ParseInt(s, 10, 64)\<close> accept an optional sign followed
  by one or more decimal digits whose value fits a signed 64-bit integer, and fail with
  a \<open>*NumError\<close> otherwise. The library checks the range while it scans; the model
  scans first and checks the range afterwards, which fails on the same strings.
\<close>

definition is_digit :: "char \<Rightarrow> bool" where
  "is_digit c = (48 \<le> (of_char c :: nat) \<and> (of_char c :: nat) \<le> 57)"

fun digits_val :: "nat \<Rightarrow> string \<Rightarrow> nat option" where
  "digits_val n [] = Some n"
| "digits_val n (c # cs) =
     (if is_digit c then digits_val (n * 10 + (of_char c - 48)) cs else None)"

definition ParseUint :: "string \<Rightarrow> nat option" where
  "ParseUint s = (if s = [] then None else digits_val 0 s)"

definition ParseInt :: "string \<Rightarrow> error + go_int" where
  "ParseInt s =
     (case s of
        [] \<Rightarrow> Inl NumError
      | c # cs \<Rightarrow>
          (let neg = (c = CHR ''-'');
               ds = (if c = CHR ''+'' \<or> c = CHR ''-'' then cs else s)
           in case ParseUint ds of
                None \<Rightarrow> Inl NumError
              | Some un \<Rightarrow>
                  if \<not> neg \<and> 2 ^ 63 \<le> un then Inl NumError
                  else if neg \<and> 2 ^ 63 < un then Inl NumError
                  else Inr (if neg then - of_nat un else of_nat un)))"

definition Atoi :: "string \<Rightarrow> error + go_int" where
  "Atoi s = ParseInt s"

text \<open>\<open>strconv.FormatInt(n, 10)\<close>, which is also what \<open>%d\<close> prints.\<close>

fun digits :: "nat \<Rightarrow> string" where
  "digits n =
     (if n < 10 then [char_of (48 + n)]
      else digits (n div 10) @ [char_of (48 + n mod 10)])"

declare digits.simps [simp del]

definition FormatInt :: "go_int \<Rightarrow> string" where
  "FormatInt w =
     (if sint w < 0 then CHR ''-'' # digits (nat (- sint w)) else digits (nat (sint w)))"

text \<open>\<open>strings.TrimPrefix\<close>.\<close>

definition TrimPrefix :: "string \<Rightarrow> string \<Rightarrow> string" where
  "TrimPrefix s p = (if take (length p) s = p then drop (length p) s else s)"

section \<open>encoding/json\<close>

text \<open>
  A JSON text is modelled by the value it denotes: object members in the order of the
  text, repeated names kept, a number by its literal, a string by the bytes of its
  literal with the escapes resolved.
  A request body is \<open>None\<close> when it does not begin with a syntactically valid JSON
  value (the empty body included), and \<open>Some j\<close> for the first value \<open>j\<close> of the stream
  otherwise.
\<close>

datatype json =
    JNull
  | JBool bool
  | JNum string
  | JStr string
  | JArr "json list"
  | JObj "(string \<times> json) list"

subsection \<open>Encoding\<close>

text \<open>
  The encoder coerces a string to valid UTF-8: every byte that does not start a
  well-formed UTF-8 sequence is replaced by U+FFFD (bytes EF BF BD). \<open>rune_len\<close> is
  the width \<open>utf8.DecodeRune\<close> reports for a well-formed sequence at the head of the
  bytes, and 0 where it reports an encoding error.
\<close>

definition seq_ok :: "nat \<Rightarrow> nat \<Rightarrow> nat \<Rightarrow> nat list \<Rightarrow> bool" where
  "seq_ok lo hi k r =
     (case take k r of
        [] \<Rightarrow> False
      | b # bs \<Rightarrow> length bs + 1 = k \<and> lo \<le> b \<and> b \<le> hi \<and> list_all (\<lambda>x. 128 \<le> x \<and> x \<le> 191) bs)"

definition rune_len :: "nat list \<Rightarrow> nat" where
  "rune_len bs =
     (case bs of
        [] \<Rightarrow> 0
      | b # r \<Rightarrow>
          if b < 128 then 1
          else if 194 \<le> b \<and> b \<le> 223 then (if seq_ok 128 191 1 r then 2 else 0)
          else if b = 224 then (if seq_ok 160 191 2 r then 3 else 0)
          else if 225 \<le> b \<and> b \<le> 236 then (if seq_ok 128 191 2 r then 3 else 0)
          else if b = 237 then (if seq_ok 128 159 2 r then 3 else 0)
          else if 238 \<le> b \<and> b \<le> 239 then (if seq_ok 128 191 2 r then 3 else 0)
          else if b = 240 then (if seq_ok 144 191 3 r then 4 else 0)
          else if 241 \<le> b \<and> b \<le> 243 then (if seq_ok 128 191 3 r then 4 else 0)
          else if b = 244 then (if seq_ok 128 143 3 r then 4 else 0)
          else 0)"

function coerce_utf8 :: "string \<Rightarrow> string" where
  "coerce_utf8 [] = []"
| "coerce_utf8 (c # cs) =
     (let w = rune_len (map of_char (c # cs))
      in if w = 0 then [CHR 0xEF, CHR 0xBF, CHR 0xBD] @ coerce_utf8 cs
         else c # take (w - 1) cs @ coerce_utf8 (drop (w - 1) cs))"
  by pat_completeness auto
termination
  by (relation "measure length") auto

declare coerce_utf8.simps [simp del]

definition encode_Ticket :: "Ticket \<Rightarrow> json" where
  "encode_Ticket t =
     JObj [(''ID'', JNum (FormatInt (ID t))),
           (''Status'', JNum (FormatInt (Status t))),
           (''Items'', case Items t of
                         None \<Rightarrow> JNull
                       | Some xs \<Rightarrow> JArr (map (\<lambda>s. JStr (coerce_utf8 s)) xs))]"

fun encode_CreateTicketResponse :: "CreateTicketResponse \<Rightarrow> json" where
  "encode_CreateTicketResponse (CreateTicketResponse n) = JObj [(''ID'', JNum (FormatInt n))]"

subsection \<open>Decoding into a Ticket\<close>

text \<open>
  The decoder looks a member name up among the struct's field names, first exactly and
  then without regard to case. The case-insensitive match folds ASCII letters, and the
  one rune outside ASCII that folds to a letter of these names is U+017F (bytes C5 BF),
  which folds to S. \<open>fold_eq\<close> takes the upper-case field name and the member name;
  \<open>to_upper\<close> is the byte of an ASCII letter in upper case.
\<close>

definition to_upper :: "char \<Rightarrow> nat" where
  "to_upper c =
     (if 97 \<le> (of_char c :: nat) \<and> (of_char c :: nat) \<le> 122
      then (of_char c :: nat) - 32 else of_char c)"

fun fold_eq :: "string \<Rightarrow> string \<Rightarrow> bool" where
  "fold_eq [] k = (k = [])"
| "fold_eq (n # ns) k =
     (case k of
        [] \<Rightarrow> False
      | c # cs \<Rightarrow>
          if (of_char c :: nat) < 128 then to_upper c = of_char n \<and> fold_eq ns cs
          else n = CHR ''S'' \<and> (of_char c :: nat) = 197 \<and>
               (case cs of [] \<Rightarrow> False | d # ds \<Rightarrow> (of_char d :: nat) = 191 \<and> fold_eq ns ds))"

datatype field = FID | FStatus | FItems

definition field_of :: "string \<Rightarrow> field option" where
  "field_of key =
     (if fold_eq ''ID'' key then Some FID
      else if fold_eq ''STATUS'' key then Some FStatus
      else if fold_eq ''ITEMS'' key then Some FItems
      else None)"

text \<open>
  The decoder keeps the first error it meets (\<open>saveError\<close>) and goes on decoding; the
  error is returned at the end.
\<close>

definition saveError :: "error \<Rightarrow> error option \<Rightarrow> error option" where
  "saveError e saved = (case saved of None \<Rightarrow> Some e | Some e0 \<Rightarrow> Some e0)"

text \<open>
  A value stored into an \<open>int\<close> field: \<open>null\<close> leaves the field as it is, a number
  literal is parsed by \<open>ParseInt\<close>, anything else is a type error.
\<close>

fun store_int :: "json \<Rightarrow> go_int \<Rightarrow> error option \<Rightarrow> go_int \<times> error option" where
  "store_int JNull v saved = (v, saved)"
| "store_int (JNum lit) v saved =
     (case ParseInt lit of
        Inr n \<Rightarrow> (n, saved)
      | Inl e \<Rightarrow> (v, saveError UnmarshalTypeError saved))"
| "store_int j v saved = (v, saveError UnmarshalTypeError saved)"

text \<open>
  A value stored into a \<open>string\<close> element, whose content before is \<open>old\<close>. The
  decoder unquotes a string literal before it stores it, and in doing so replaces
  bytes that are not valid UTF-8 by U+FFFD, as the encoder does.
\<close>

fun store_string :: "json \<Rightarrow> string \<Rightarrow> error option \<Rightarrow> string \<times> error option" where
  "store_string (JStr s) old saved = (coerce_utf8 s, saved)"
| "store_string JNull old saved = (old, saved)"
| "store_string j old saved = (old, saveError UnmarshalTypeError saved)"

text \<open>
  A non-empty array stored into a slice: element \<open>i\<close> of the array is decoded into slot
  \<open>i\<close> of the slice's backing array, which holds what an earlier \<open>Items\<close> member of the
  same body left there and the empty string beyond that. The result is the new
  elements, the slots left over behind them, and the saved error.
\<close>

fun array_elems :: "json list \<Rightarrow> string list \<Rightarrow> error option \<Rightarrow> string list \<times> string list \<times> error option" where
  "array_elems [] backing saved = ([], backing, saved)"
| "array_elems (j # js) backing saved =
     (let old = (case backing of [] \<Rightarrow> [] | x # xs \<Rightarrow> x);
          rest = (case backing of [] \<Rightarrow> [] | x # xs \<Rightarrow> xs);
          (s, saved1) = store_string j old saved;
          (ss, spare, saved2) = array_elems js rest saved1
      in (s # ss, spare, saved2))"

text \<open>
  The decoding state: the ticket being filled, the slots of the \<open>Items\<close> backing array
  behind its length, and the saved error.
\<close>

record dstate =
  tkt :: Ticket
  spare :: "string list"
  saved :: "error option"

fun store_items :: "json \<Rightarrow> dstate \<Rightarrow> dstate" where
  "store_items JNull st = st\<lparr>tkt := (tkt st)\<lparr>Items := None\<rparr>, spare := []\<rparr>"
| "store_items (JArr []) st = st\<lparr>tkt := (tkt st)\<lparr>Items := Some []\<rparr>, spare := []\<rparr>"
| "store_items (JArr (j # js)) st =
     (let backing = (case Items (tkt st) of None \<Rightarrow> [] | Some xs \<Rightarrow> xs) @ spare st;
          (xs, sp, sv) = array_elems (j # js) backing (saved st)
      in st\<lparr>tkt := (tkt st)\<lparr>Items := Some xs\<rparr>, spare := sp, saved := sv\<rparr>)"
| "store_items j st = st\<lparr>saved := saveError UnmarshalTypeError (saved st)\<rparr>"

definition decode_member :: "bool \<Rightarrow> string \<times> json \<Rightarrow> dstate \<Rightarrow> dstate" where
  "decode_member disallowUnknownFields m st =
     (case field_of (fst m) of
        None \<Rightarrow>
          if disallowUnknownFields then st\<lparr>saved := saveError (UnknownField (fst m)) (saved st)\<rparr>
          else st
      | Some FID \<Rightarrow>
          (let (v, sv) = store_int (snd m) (ID (tkt st)) (saved st)
           in st\<lparr>tkt := (tkt st)\<lparr>ID := v\<rparr>, saved := sv\<rparr>)
      | Some FStatus \<Rightarrow>
          (let (v, sv) = store_int (snd m) (Status (tkt st)) (saved st)
           in st\<lparr>tkt := (tkt st)\<lparr>Status := v\<rparr>, saved := sv\<rparr>)
      | Some FItems \<Rightarrow> store_items (snd m) st)"

fun decode_members :: "bool \<Rightarrow> (string \<times> json) list \<Rightarrow> dstate \<Rightarrow> dstate" where
  "decode_members d [] st = st"
| "decode_members d (m # ms) st = decode_members d ms (decode_member d m st)"

text \<open>
  \<open>Unmarshal\<close> of one value into a ticket: an object fills the fields, \<open>null\<close> does
  nothing, every other value is a type error. It returns the ticket as it was left
  and the saved error.
\<close>

definition unmarshal :: "bool \<Rightarrow> json \<Rightarrow> Ticket \<Rightarrow> Ticket \<times> error option" where
  "unmarshal d j t =
     (case j of
        JObj ms \<Rightarrow>
          (let st = decode_members d ms \<lparr>tkt = t, spare = [], saved = None\<rparr>
           in (tkt st, saved st))
      | JNull \<Rightarrow> (t, None)
      | _ \<Rightarrow> (t, Some UnmarshalTypeError))"

text \<open>\<open>Decoder.Decode\<close> on a body, with the decoder's \<open>DisallowUnknownFields\<close> flag.\<close>

definition Decode :: "bool \<Rightarrow> json option \<Rightarrow> Ticket \<Rightarrow> Ticket \<times> error option" where
  "Decode d body t =
     (case body of
        None \<Rightarrow> (t, Some SyntaxError)
      | Some j \<Rightarrow> unmarshal d j t)"

section \<open>The request handler (server.go)\<close>

definition isTicketValid :: "Ticket \<Rightarrow> bool" where
  "isTicketValid ticket = (if Items ticket = None then False else True)"

definition getTicketFromRequestBody :: "json option \<Rightarrow> error + Ticket" where
  "getTicketFromRequestBody body =
     (let (ticket, err) = Decode True body zero_Ticket
      in case err of
           Some e \<Rightarrow> Inl (UnableToUnmarshal e)
         | None \<Rightarrow> if \<not> isTicketValid ticket then Inl EmptyFields else Inr ticket)"

text \<open>
  The storage interface, over the state \<open>'s\<close> of an implementation. Both methods have
  pointer receivers, so both return the state they leave.
\<close>

record 's KitchenStore =
  GetTicketByID :: "'s \<Rightarrow> go_int \<Rightarrow> 's \<times> (error + Ticket)"
  StoreTicket :: "'s \<Rightarrow> Ticket \<Rightarrow> 's \<times> (error + go_int)"

text \<open>
  A request is its method, the path of its URL and its body. A response is what the
  handler has written: the status code given to \<open>WriteHeader\<close>, if any, and the JSON
  values encoded to the body.
\<close>

record request =
  Method :: string
  Path :: string
  Body :: "json option"

record response =
  Code :: "nat option"
  Written :: "json list"

definition no_response :: response where
  "no_response = \<lparr>Code = None, Written = []\<rparr>"

definition WriteHeader :: "nat \<Rightarrow> response \<Rightarrow> response" where
  "WriteHeader c w = (case Code w of None \<Rightarrow> w\<lparr>Code := Some c\<rparr> | Some c0 \<Rightarrow> w)"

definition Encode :: "json \<Rightarrow> response \<Rightarrow> response" where
  "Encode j w =
     w\<lparr>Code := (case Code w of None \<Rightarrow> Some 200 | Some c \<Rightarrow> Some c),
       Written := Written w @ [j]\<rparr>"

definition StatusOK :: nat where "StatusOK = 200"
definition StatusAccepted :: nat where "StatusAccepted = 202"
definition StatusBadRequest :: nat where "StatusBadRequest = 400"
definition StatusNotFound :: nat where "StatusNotFound = 404"

text \<open>
  A handler returns the state of the store, the calls it made on the store, in order,
  and the response.
\<close>

datatype store_call = CallGetTicketByID go_int | CallStoreTicket Ticket

definition getTicket :: "'s KitchenStore \<Rightarrow> 's \<Rightarrow> request \<Rightarrow> 's \<times> store_call list \<times> response" where
  "getTicket k s r =
     (let stringID = TrimPrefix (Path r) ''/ticket/''
      in case Atoi stringID of
           Inl err \<Rightarrow> (s, [], WriteHeader StatusBadRequest no_response)
         | Inr ticketID \<Rightarrow>
             (case GetTicketByID k s ticketID of
                (s', Inl err) \<Rightarrow>
                  (s', [CallGetTicketByID ticketID], WriteHeader StatusNotFound no_response)
              | (s', Inr ticket) \<Rightarrow>
                  (s', [CallGetTicketByID ticketID],
                   Encode (encode_Ticket ticket) (WriteHeader StatusOK no_response))))"

definition createTicket :: "'s KitchenStore \<Rightarrow> 's \<Rightarrow> request \<Rightarrow> 's \<times> store_call list \<times> response" where
  "createTicket k s r =
     (case getTicketFromRequestBody (Body r) of
        Inl err \<Rightarrow> (s, [], WriteHeader StatusBadRequest no_response)
      | Inr ticket0 \<Rightarrow>
          (let ticket = ticket0\<lparr>Status := STATUS_PENDING\<rparr>
           in case StoreTicket k s ticket of
                (s', Inl err) \<Rightarrow>
                  (s', [CallStoreTicket ticket], WriteHeader StatusBadRequest no_response)
              | (s', Inr id') \<Rightarrow>
                  (s', [CallStoreTicket ticket],
                   Encode (encode_CreateTicketResponse (CreateTicketResponse id'))
                     (WriteHeader StatusAccepted no_response))))"

definition ServeHTTP :: "'s KitchenStore \<Rightarrow> 's \<Rightarrow> request \<Rightarrow> 's \<times> store_call list \<times> response" where
  "ServeHTTP k s r =
     (if Method r = ''GET'' then getTicket k s r
      else if Method r = ''POST'' then createTicket k s r
      else (s, [], no_response))"

section \<open>The storage providers\<close>

text \<open>\<open>StubKitchenStore\<close>: the state is the slice \<open>tickets\<close>.\<close>

fun stub_GetTicketByID :: "Ticket list \<Rightarrow> go_int \<Rightarrow> error + Ticket" where
  "stub_GetTicketByID [] ticketID = Inl (NoTicket ticketID)"
| "stub_GetTicketByID (ticket # tickets) ticketID =
     (if ID ticket = ticketID then Inr ticket else stub_GetTicketByID tickets ticketID)"

definition stub_StoreTicket :: "Ticket list \<Rightarrow> Ticket \<Rightarrow> Ticket list \<times> (error + go_int)" where
  "stub_StoreTicket tickets ticket0 =
     (let ticket = ticket0\<lparr>ID := of_nat (length tickets)\<rparr>
      in (tickets @ [ticket], Inr (ID ticket)))"

definition StubKitchenStore :: "Ticket list KitchenStore" where
  "StubKitchenStore =
     \<lparr>GetTicketByID = (\<lambda>s ticketID. (s, stub_GetTicketByID s ticketID)),
      StoreTicket = stub_StoreTicket\<rparr>"

text \<open>\<open>InMemoryKitchenStore\<close>: an empty struct, so the state is \<open>unit\<close>.\<close>

definition InMemoryKitchenStore :: "unit KitchenStore" where
  "InMemoryKitchenStore =
     \<lparr>GetTicketByID = (\<lambda>s ticketId. (s, Inr zero_Ticket)),
      StoreTicket = (\<lambda>s ticket. (s, Inr 123))\<rparr>"

text \<open>The requests of the tests: \<open>newGetTicketRequest\<close> and a POST with a given body.\<close>

definition newGetTicketRequest :: "go_int \<Rightarrow> request" where
  "newGetTicketRequest ticketID =
     \<lparr>Method = ''GET'', Path = ''/ticket/'' @ FormatInt ticketID, Body = None\<rparr>"

definition post_request :: "json option \<Rightarrow> request" where
  "post_request body = \<lparr>Method = ''POST'', Path = ''/ticket/'', Body = body\<rparr>"

text \<open>
  A sequence of \<open>StoreTicket\<close> calls on a store, one for each ticket of the list: the
  state they leave and what each call returned.
\<close>

fun store_all :: "'s KitchenStore \<Rightarrow> 's \<Rightarrow> Ticket list \<Rightarrow> 's \<times> (error + go_int) list" where
  "store_all k s [] = (s, [])"
| "store_all k s (t # ts) =
     (let (s1, r) = StoreTicket k s t;
          (s2, rs) = store_all k s1 ts
      in (s2, r # rs))"

section \<open>Shapes of request bodies\<close>

text \<open>
  Predicates on the members of a body, used to state which bodies the claims are about.
  A value is of the type of an \<open>int\<close> field when it is \<open>null\<close> or an integer literal
  that \<open>ParseInt\<close> accepts, of the type of a \<open>string\<close> element when it is a string or
  \<open>null\<close>, and of the type of the \<open>Items\<close> field when it is \<open>null\<close> or an array of such
  elements.
\<close>

fun int_value :: "json \<Rightarrow> bool" where
  "int_value JNull = True"
| "int_value (JNum lit) = (case ParseInt lit of Inr n \<Rightarrow> True | Inl e \<Rightarrow> False)"
| "int_value j = False"

fun string_value :: "json \<Rightarrow> bool" where
  "string_value (JStr s) = True"
| "string_value JNull = True"
| "string_value j = False"

fun items_value :: "json \<Rightarrow> bool" where
  "items_value JNull = True"
| "items_value (JArr js) = list_all string_value js"
| "items_value j = False"

definition member_typed :: "string \<times> json \<Rightarrow> bool" where
  "member_typed m =
     (case field_of (fst m) of
        None \<Rightarrow> False
      | Some FID \<Rightarrow> int_value (snd m)
      | Some FStatus \<Rightarrow> int_value (snd m)
      | Some FItems \<Rightarrow> items_value (snd m))"

text \<open>The value of the last member that names the \<open>Items\<close> field, if there is one.\<close>

fun items_member :: "(string \<times> json) list \<Rightarrow> json option" where
  "items_member [] = None"
| "items_member (m # ms) =
     (case items_member ms of
        Some v \<Rightarrow> Some v
      | None \<Rightarrow> if field_of (fst m) = Some FItems then Some (snd m) else None)"

text \<open>
  The \<open>Items\<close> field of a body is absent or null: the body is not a JSON object at
  all, or no member names \<open>Items\<close>, or the last one that does is \<open>null\<close>.
\<close>

definition items_absent_or_null :: "json option \<Rightarrow> bool" where
  "items_absent_or_null body =
     (case body of
        Some (JObj ms) \<Rightarrow> items_member ms = None \<or> items_member ms = Some JNull
      | _ \<Rightarrow> True)"

text \<open>
  The body contains a field outside the schema of \<open>Ticket\<close>: some object in it, at
  any depth, has a member whose name is not that of a field.
\<close>

fun outside_schema :: "json \<Rightarrow> bool" where
  "outside_schema (JObj ms) = list_ex (\<lambda>m. field_of (fst m) = None \<or> outside_schema (snd m)) ms"
| "outside_schema (JArr js) = list_ex outside_schema js"
| "outside_schema j = False"

definition has_unknown_field :: "json option \<Rightarrow> bool" where
  "has_unknown_field body = (case body of Some j \<Rightarrow> outside_schema j | None \<Rightarrow> False)"

text \<open>
  The members of a body without those that name the \<open>ID\<close> field, and the bodies
  whose \<open>ID\<close> members are all of the field's type.
\<close>

definition is_ID_member :: "string \<times> json \<Rightarrow> bool" where
  "is_ID_member m = (field_of (fst m) = Some FID)"

definition without_ID :: "(string \<times> json) list \<Rightarrow> (string \<times> json) list" where
  "without_ID ms = filter (\<lambda>m. \<not> is_ID_member m) ms"

definition ID_members_typed :: "(string \<times> json) list \<Rightarrow> bool" where
  "ID_members_typed ms = list_all (\<lambda>m. is_ID_member m \<longrightarrow> int_value (snd m)) ms"

text \<open>The decoding state with the ticket's \<open>ID\<close> set to a value.\<close>

definition set_ID :: "go_int \<Rightarrow> dstate \<Rightarrow> dstate" where
  "set_ID v st = st\<lparr>tkt := (tkt st)\<lparr>ID := v\<rparr>\<rparr>"

text \<open>
  Valid UTF-8: the bytes of the string are well-formed UTF-8 sequences, one after the
  other. \<open>utf8_items\<close> says so of every item of a ticket.
\<close>

function valid_utf8 :: "string \<Rightarrow> bool" where
  "valid_utf8 [] = True"
| "valid_utf8 (c # cs) =
     (let w = rune_len (map of_char (c # cs))
      in w \<noteq> 0 \<and> valid_utf8 (drop (w - 1) cs))"
  by pat_completeness auto
termination
  by (relation "measure length") auto

declare valid_utf8.simps [simp del]

definition utf8_items :: "Ticket \<Rightarrow> bool" where
  "utf8_items t = (case Items t of None \<Rightarrow> True | Some xs \<Rightarrow> list_all valid_utf8 xs)"

section \<open>Valid UTF-8 and the coercion\<close>

text \<open>
  The coercion leaves a string as it is exactly when the string is valid UTF-8, and
  what it returns is valid UTF-8, so coercing twice is coercing once.
\<close>

lemma seq_ok_length: "seq_ok lo hi k r \<Longrightarrow> k \<le> length r"
proof -
  assume a: "seq_ok lo hi k r"
  then obtain b bs where t: "take k r = b # bs" "length bs + 1 = k"
    by (auto simp: seq_ok_def split: list.splits)
  then have "length (take k r) = k" by simp
  then show ?thesis by simp
qed

lemma seq_ok_prefix: "seq_ok lo hi k r \<Longrightarrow> seq_ok lo hi k (take k r @ ys)"
proof -
  assume a: "seq_ok lo hi k r"
  have "k \<le> length r" using a by (rule seq_ok_length)
  then have "take k (take k r @ ys) = take k r" by simp
  with a show ?thesis by (simp only: seq_ok_def)
qed

lemma rune_len_length: "rune_len bs \<le> length bs"
proof (cases bs)
  case Nil
  then show ?thesis by (simp add: rune_len_def)
next
  case (Cons b r)
  have "\<And>lo hi k. seq_ok lo hi k r \<Longrightarrow> k \<le> length r" by (rule seq_ok_length)
  then have s1: "\<And>lo hi. seq_ok lo hi 1 r \<Longrightarrow> 1 \<le> length r"
    and s2: "\<And>lo hi. seq_ok lo hi 2 r \<Longrightarrow> 2 \<le> length r"
    and s3: "\<And>lo hi. seq_ok lo hi 3 r \<Longrightarrow> 3 \<le> length r" by blast+
  show ?thesis
    unfolding Cons rune_len_def using s1 s2 s3 by (auto split: if_splits)
qed

lemma rune_len_prefix:
  "rune_len (b # r) = w \<Longrightarrow> w \<noteq> 0 \<Longrightarrow> rune_len (b # take (w - 1) r @ ys) = w"
proof -
  assume a: "rune_len (b # r) = w" and w: "w \<noteq> 0"
  have p1: "\<And>lo hi. seq_ok lo hi 1 r \<Longrightarrow> seq_ok lo hi 1 (take 1 r @ ys)"
    and p2: "\<And>lo hi. seq_ok lo hi 2 r \<Longrightarrow> seq_ok lo hi 2 (take 2 r @ ys)"
    and p3: "\<And>lo hi. seq_ok lo hi 3 r \<Longrightarrow> seq_ok lo hi 3 (take 3 r @ ys)"
    by (rule seq_ok_prefix, assumption)+
  show ?thesis
    using a w p1 p2 p3 unfolding rune_len_def
    by (auto split: if_splits)
qed

lemma rune_len_replacement: "rune_len (239 # 191 # 189 # bs) = 3"
  by (simp add: rune_len_def seq_ok_def)

lemma coerce_utf8_Cons_invalid:
  "rune_len (of_char c # map of_char cs) = 0 \<Longrightarrow>
   coerce_utf8 (c # cs) = CHR 0xEF # CHR 0xBF # CHR 0xBD # coerce_utf8 cs"
  by (subst coerce_utf8.simps) simp

lemma coerce_utf8_Cons_valid:
  "rune_len (of_char c # map of_char cs) = w \<Longrightarrow> w \<noteq> 0 \<Longrightarrow>
   coerce_utf8 (c # cs) = c # take (w - 1) cs @ coerce_utf8 (drop (w - 1) cs)"
  by (subst coerce_utf8.simps) (simp add: Let_def)

lemma valid_utf8_Cons:
  "valid_utf8 (c # cs) =
     (rune_len (of_char c # map of_char cs) \<noteq> 0 \<and>
      valid_utf8 (drop (rune_len (of_char c # map of_char cs) - 1) cs))"
  by (subst valid_utf8.simps) (simp add: Let_def)

lemma length_coerce_utf8: "length s \<le> length (coerce_utf8 s)"
proof (induction s rule: length_induct)
  case (1 s)
  show ?case
  proof (cases s)
    case Nil
    then show ?thesis by (simp add: coerce_utf8.simps)
  next
    case (Cons c cs)
    define w where "w = rune_len (of_char c # map of_char cs)"
    show ?thesis
    proof (cases "w = 0")
      case True
      have "length cs < length s" by (simp add: Cons)
      with 1 have "length cs \<le> length (coerce_utf8 cs)" by blast
      then show ?thesis
        using True by (simp add: Cons coerce_utf8_Cons_invalid w_def)
    next
      case False
      have "length (drop (w - 1) cs) < length s" by (simp add: Cons)
      with 1 have "length (drop (w - 1) cs) \<le> length (coerce_utf8 (drop (w - 1) cs))"
        by blast
      moreover have "length (take (w - 1) cs) + length (drop (w - 1) cs) = length cs"
        by simp
      ultimately have "length cs \<le> length (take (w - 1) cs) + length (coerce_utf8 (drop (w - 1) cs))"
        by linarith
      then show ?thesis
        using False by (simp add: Cons coerce_utf8_Cons_valid [OF w_def [symmetric]] del: length_take length_drop)
    qed
  qed
qed

lemma valid_utf8_coerce: "valid_utf8 s \<Longrightarrow> coerce_utf8 s = s"
proof (induction s rule: length_induct)
  case (1 s)
  show ?case
  proof (cases s)
    case Nil
    then show ?thesis by (simp add: coerce_utf8.simps)
  next
    case (Cons c cs)
    define w where "w = rune_len (of_char c # map of_char cs)"
    from 1(2) Cons have w: "w \<noteq> 0" and v: "valid_utf8 (drop (w - 1) cs)"
      by (simp_all add: valid_utf8_Cons w_def)
    have "length (drop (w - 1) cs) < length s" by (simp add: Cons)
    with 1(1) v have "coerce_utf8 (drop (w - 1) cs) = drop (w - 1) cs"
      by blast
    then show ?thesis
      using w by (simp add: Cons coerce_utf8_Cons_valid [OF w_def [symmetric]])
  qed
qed

lemma coerce_utf8_fixed_valid: "coerce_utf8 s = s \<Longrightarrow> valid_utf8 s"
proof (induction s rule: length_induct)
  case (1 s)
  show ?case
  proof (cases s)
    case Nil
    then show ?thesis by (simp add: valid_utf8.simps)
  next
    case (Cons c cs)
    define w where "w = rune_len (of_char c # map of_char cs)"
    have w: "w \<noteq> 0"
    proof
      assume "w = 0"
      then have "coerce_utf8 (c # cs) = CHR 0xEF # CHR 0xBF # CHR 0xBD # coerce_utf8 cs"
        by (simp add: coerce_utf8_Cons_invalid w_def)
      with 1(2) Cons have "cs = CHR 0xBF # CHR 0xBD # coerce_utf8 cs" by simp
      then have "length cs = 2 + length (coerce_utf8 cs)"
        by (metis length_Cons add_2_eq_Suc)
      with length_coerce_utf8 [of cs] show False by simp
    qed
    then have "coerce_utf8 (c # cs) = c # take (w - 1) cs @ coerce_utf8 (drop (w - 1) cs)"
      by (rule coerce_utf8_Cons_valid [OF w_def [symmetric]])
    with 1(2) Cons have "take (w - 1) cs @ coerce_utf8 (drop (w - 1) cs) = cs"
      by simp
    then have "take (w - 1) cs @ coerce_utf8 (drop (w - 1) cs) = take (w - 1) cs @ drop (w - 1) cs"
      by (simp only: append_take_drop_id)
    then have "coerce_utf8 (drop (w - 1) cs) = drop (w - 1) cs"
      by (simp only: same_append_eq)
    moreover have "length (drop (w - 1) cs) < length s" by (simp add: Cons)
    ultimately have "valid_utf8 (drop (w - 1) cs)" using 1(1) by blast
    with w show ?thesis
      by (simp add: Cons valid_utf8_Cons w_def)
  qed
qed

lemma coerce_utf8_valid: "valid_utf8 (coerce_utf8 s)"
proof (induction s rule: length_induct)
  case (1 s)
  show ?case
  proof (cases s)
    case Nil
    then show ?thesis by (simp add: coerce_utf8.simps valid_utf8.simps)
  next
    case (Cons c cs)
    define w where "w = rune_len (of_char c # map of_char cs)"
    show ?thesis
    proof (cases "w = 0")
      case True
      have "length cs < length s" by (simp add: Cons)
      with 1 have "valid_utf8 (coerce_utf8 cs)" by blast
      then show ?thesis
        using True by (simp add: Cons coerce_utf8_Cons_invalid w_def valid_utf8_Cons rune_len_replacement)
    next
      case False
      define rest where "rest = coerce_utf8 (drop (w - 1) cs)"
      have "length (drop (w - 1) cs) < length s" by (simp add: Cons)
      with 1 have v: "valid_utf8 rest" unfolding rest_def by blast
      have p: "rune_len (of_char c # map of_char (take (w - 1) cs) @ map of_char rest) = w"
        using rune_len_prefix [OF w_def [symmetric] False, of "map of_char rest"]
        by (simp only: take_map)
      have "w \<le> length (of_char c # map of_char cs :: nat list)"
        unfolding w_def by (rule rune_len_length)
      then have l: "length (take (w - 1) cs) = w - 1" using False by simp
      then have d: "drop (w - 1) (take (w - 1) cs @ rest) = rest" by simp
      have "valid_utf8 (c # take (w - 1) cs @ rest)"
        by (subst valid_utf8_Cons) (simp only: map_append p d v False not_False_eq_True simp_thms)
      then show ?thesis
        using False by (simp add: Cons coerce_utf8_Cons_valid [OF w_def [symmetric]] rest_def)
    qed
  qed
qed

lemma coerce_utf8_idem: "coerce_utf8 (coerce_utf8 s) = coerce_utf8 s"
  by (rule valid_utf8_coerce) (rule coerce_utf8_valid)

lemma valid_utf8_iff: "valid_utf8 s = (coerce_utf8 s = s)"
  using valid_utf8_coerce coerce_utf8_fixed_valid by blast

section \<open>Printing and parsing integers\<close>

lemma digits_val_append:
  "digits_val a (xs @ ys) = (case digits_val a xs of None \<Rightarrow> None | Some v \<Rightarrow> digits_val v ys)"
  by (induction xs arbitrary: a) auto

lemma is_digit_char_of: "d < 10 \<Longrightarrow> is_digit (char_of (48 + d :: nat))"
  by (simp add: is_digit_def)

lemma digits_val_digits: "digits_val 0 (digits n) = Some n"
proof (induction n rule: digits.induct)
  case (1 n)
  show ?case
  proof (cases "n < 10")
    case True
    then show ?thesis
      by (subst digits.simps) (simp add: is_digit_char_of)
  next
    case False
    have d: "n mod 10 < 10" by simp
    from False 1 have ih: "digits_val 0 (digits (n div 10)) = Some (n div 10)" by simp
    show ?thesis
      using False d
      by (subst digits.simps) (simp add: digits_val_append ih is_digit_char_of)
  qed
qed

lemma digits_is_digit: "c \<in> set (digits n) \<Longrightarrow> is_digit c"
proof (induction n rule: digits.induct)
  case (1 n)
  show ?case
  proof (cases "n < 10")
    case True
    with 1(2) show ?thesis
      by (subst (asm) digits.simps) (simp add: is_digit_char_of)
  next
    case False
    have d: "n mod 10 < 10" by simp
    from 1(2) False have "c \<in> set (digits (n div 10)) \<or> c = char_of (48 + n mod 10)"
      by (subst (asm) digits.simps) auto
    then show ?thesis
      using 1(1) False is_digit_char_of [OF d] by auto
  qed
qed

lemma digits_not_Nil: "digits n \<noteq> []"
  by (subst digits.simps) simp

lemma ParseUint_digits: "ParseUint (digits n) = Some n"
  by (simp add: ParseUint_def digits_not_Nil digits_val_digits)

lemma digits_no_sign:
  "\<exists>c cs. digits n = c # cs \<and> c \<noteq> CHR ''+'' \<and> c \<noteq> CHR ''-''"
proof -
  obtain c cs where e: "digits n = c # cs"
    using digits_not_Nil [of n] by (cases "digits n") auto
  then have "is_digit c"
    using digits_is_digit [of c n] by simp
  then have "c \<noteq> CHR ''+'' \<and> c \<noteq> CHR ''-''"
    by (auto simp: is_digit_def)
  with e show ?thesis by blast
qed

lemma ParseInt_FormatInt: "ParseInt (FormatInt w) = Inr w"
proof (cases "sint w < 0")
  case True
  define m where "m = nat (- sint w)"
  have lo: "- (2 ^ 63) \<le> sint w"
    using sint_ge [of w] by simp
  from True lo have m: "m \<le> 2 ^ 63" "int m = - sint w"
    by (simp_all add: m_def)
  have "(- of_nat m :: 64 word) = - of_int (int m)" by simp
  also have "\<dots> = w" by (simp only: m) simp
  finally have w: "(- of_nat m :: 64 word) = w" .
  from True have "FormatInt w = CHR ''-'' # digits m"
    by (simp add: FormatInt_def m_def)
  then show ?thesis
    using m(1) w by (simp add: ParseInt_def ParseUint_digits)
next
  case False
  define m where "m = nat (sint w)"
  have hi: "sint w < 2 ^ 63"
    using sint_lt [of w] by simp
  from False hi have m: "m < 2 ^ 63" "int m = sint w"
    by (simp_all add: m_def)
  have "(of_nat m :: 64 word) = of_int (int m)" by simp
  also have "\<dots> = w" by (simp only: m) simp
  finally have w: "(of_nat m :: 64 word) = w" .
  obtain c cs where e: "digits m = c # cs" "c \<noteq> CHR ''+''" "c \<noteq> CHR ''-''"
    using digits_no_sign [of m] by blast
  from False have f: "FormatInt w = digits m"
    by (simp add: FormatInt_def m_def)
  have "ParseUint (c # cs) = Some m"
    using ParseUint_digits [of m] e(1) by simp
  then show ?thesis
    using m(1) w e by (simp add: f ParseInt_def)
qed

lemma sint_of_nat_small: "n < 2 ^ 63 \<Longrightarrow> sint (of_nat n :: 64 word) = int n"
proof -
  assume n: "n < 2 ^ 63"
  then have "int n < int (2 ^ 63)" by (simp only: of_nat_less_iff)
  then have "int n < 2 ^ 63" by simp
  then have "signed_take_bit 63 (int n) = int n"
    by (simp add: signed_take_bit_int_eq_self)
  then show ?thesis
    by (simp add: signed_of_nat)
qed

section \<open>Properties of the decoder\<close>

text \<open>Once an error is saved it stays: the decoder never clears it.\<close>

lemma saveError_Some: "saveError e (Some e0) = Some e0"
  by (simp add: saveError_def)

lemma saveError_not_None: "saveError e sv \<noteq> None"
  by (simp add: saveError_def split: option.splits)

lemma store_int_saved: "snd (store_int j v (Some e)) = Some e"
  by (cases j) (simp_all add: saveError_Some split: sum.splits)

lemma store_string_saved: "snd (store_string j old (Some e)) = Some e"
  by (cases j) (simp_all add: saveError_Some)

lemma array_elems_saved: "snd (snd (array_elems js b (Some e))) = Some e"
proof (induction js arbitrary: b)
  case Nil
  show ?case by simp
next
  case (Cons j js)
  obtain s sv where a: "store_string j (case b of [] \<Rightarrow> [] | x # xs \<Rightarrow> x) (Some e) = (s, sv)"
    by (cases "store_string j (case b of [] \<Rightarrow> [] | x # xs \<Rightarrow> x) (Some e)")
  then have sv: "sv = Some e"
    using store_string_saved [of j "case b of [] \<Rightarrow> [] | x # xs \<Rightarrow> x" e] by simp
  show ?case
    using Cons [of "case b of [] \<Rightarrow> [] | x # xs \<Rightarrow> xs"] a sv
    by (auto simp: Let_def split: prod.splits)
qed

lemma store_items_saved: "saved st = Some e \<Longrightarrow> saved (store_items j st) = Some e"
proof (cases j)
  case (JArr js)
  assume s: "saved st = Some e"
  show ?thesis
  proof (cases js)
    case Nil
    with JArr s show ?thesis by simp
  next
    case (Cons x xs)
    with JArr s show ?thesis
      using array_elems_saved [of "x # xs" "(case Items (tkt st) of None \<Rightarrow> [] | Some ys \<Rightarrow> ys) @ spare st" e]
      by (auto simp: Let_def split: prod.splits)
  qed
qed (simp_all add: saveError_Some)

lemma decode_member_saved: "saved st = Some e \<Longrightarrow> saved (decode_member d m st) = Some e"
  using store_int_saved [of "snd m" "ID (tkt st)" e] store_int_saved [of "snd m" "Status (tkt st)" e]
  by (auto simp: decode_member_def saveError_Some store_items_saved Let_def
      split: option.splits field.splits prod.splits)

lemma decode_members_saved: "saved st = Some e \<Longrightarrow> saved (decode_members d ms st) = Some e"
  by (induction ms arbitrary: st) (simp_all add: decode_member_saved)

lemma decode_members_saved_None:
  "saved (decode_members d ms st) = None \<Longrightarrow> saved st = None"
  using decode_members_saved [of st _ d ms] by (cases "saved st") auto

lemma decode_member_unknown:
  "field_of (fst m) = None \<Longrightarrow> saved (decode_member True m st) \<noteq> None"
  by (simp add: decode_member_def saveError_not_None)

text \<open>Members of the right type save no error.\<close>

lemma store_int_typed: "int_value j \<Longrightarrow> snd (store_int j v sv) = sv"
  by (cases j) (simp_all split: sum.splits)

lemma store_string_typed: "string_value j \<Longrightarrow> snd (store_string j old sv) = sv"
  by (cases j) simp_all

lemma array_elems_typed: "list_all string_value js \<Longrightarrow> snd (snd (array_elems js b sv)) = sv"
proof (induction js arbitrary: b)
  case Nil
  show ?case by simp
next
  case (Cons j js)
  then have j: "string_value j" and js: "list_all string_value js" by simp_all
  show ?case
    using Cons.IH [OF js, of "case b of [] \<Rightarrow> [] | x # xs \<Rightarrow> xs"]
      store_string_typed [OF j, of "case b of [] \<Rightarrow> [] | x # xs \<Rightarrow> x" sv]
    by (auto simp: Let_def split: prod.splits)
qed

lemma store_items_typed: "items_value j \<Longrightarrow> saved (store_items j st) = saved st"
proof (cases j)
  case (JArr js)
  assume v: "items_value j"
  show ?thesis
  proof (cases js)
    case Nil
    with JArr show ?thesis by simp
  next
    case (Cons x xs)
    with JArr v have "list_all string_value (x # xs)" by simp
    then show ?thesis
      using JArr Cons
        array_elems_typed [of "x # xs" "(case Items (tkt st) of None \<Rightarrow> [] | Some ys \<Rightarrow> ys) @ spare st" "saved st"]
      by (auto simp: Let_def split: prod.splits)
  qed
qed simp_all

lemma decode_member_typed: "member_typed m \<Longrightarrow> saved (decode_member d m st) = saved st"
  using store_int_typed [of "snd m" "ID (tkt st)" "saved st"]
    store_int_typed [of "snd m" "Status (tkt st)" "saved st"]
  by (auto simp: decode_member_def member_typed_def store_items_typed Let_def
      split: option.splits field.splits prod.splits)

lemma decode_members_typed:
  "list_all member_typed ms \<Longrightarrow> saved (decode_members d ms st) = saved st"
  by (induction ms arbitrary: st) (simp_all add: decode_member_typed)

text \<open>What is left in \<open>Items\<close> when decoding ends without an error.\<close>

lemma store_items_nil:
  "saved (store_items j st) = None \<Longrightarrow> (Items (tkt (store_items j st)) = None) = (j = JNull)"
proof (cases j)
  case (JArr js)
  show ?thesis
  proof (cases js)
    case Nil
    with JArr show ?thesis by simp
  next
    case (Cons x xs)
    with JArr show ?thesis
      by (auto simp: Let_def split: prod.splits)
  qed
qed (simp_all add: saveError_not_None)

lemma decode_member_Items_nil:
  "saved (decode_member d m st) = None \<Longrightarrow>
   (Items (tkt (decode_member d m st)) = None) =
     (if field_of (fst m) = Some FItems then snd m = JNull else Items (tkt st) = None)"
  by (auto simp: decode_member_def store_items_nil Let_def
      split: option.splits field.splits prod.splits if_splits)

lemma decode_members_Items_nil:
  "saved (decode_members d ms st) = None \<Longrightarrow>
   (Items (tkt (decode_members d ms st)) = None) =
     (case items_member ms of None \<Rightarrow> Items (tkt st) = None | Some v \<Rightarrow> v = JNull)"
proof (induction ms arbitrary: st)
  case Nil
  show ?case by simp
next
  case (Cons m ms)
  from Cons.prems have f: "saved (decode_members d ms (decode_member d m st)) = None"
    by simp
  then have s1: "saved (decode_member d m st) = None"
    by (rule decode_members_saved_None)
  note ih = Cons.IH [OF f]
  show ?case
  proof (cases "items_member ms")
    case (Some v)
    with ih show ?thesis by simp
  next
    case None
    with ih decode_member_Items_nil [OF s1] show ?thesis by simp
  qed
qed

text \<open>
  Members that name \<open>ID\<close> and hold a value of its type change the \<open>ID\<close> of the
  ticket and nothing else; the other members never read it.
\<close>

lemma set_ID_set_ID: "set_ID v (set_ID u st) = set_ID v st"
  by (simp add: set_ID_def)

lemma set_ID_same: "set_ID (ID (tkt st)) st = st"
  by (simp add: set_ID_def)

lemma store_items_set_ID: "store_items j (set_ID v st) = set_ID v (store_items j st)"
proof (cases j)
  case (JArr js)
  show ?thesis
  proof (cases js)
    case Nil
    with JArr show ?thesis by (simp add: set_ID_def)
  next
    case (Cons x xs)
    with JArr show ?thesis
      by (auto simp: set_ID_def Let_def split: prod.splits)
  qed
qed (simp_all add: set_ID_def)

lemma decode_member_set_ID:
  "\<not> is_ID_member m \<Longrightarrow> decode_member d m (set_ID v st) = set_ID v (decode_member d m st)"
proof (cases "field_of (fst m)")
  case None
  then show ?thesis by (simp add: decode_member_def set_ID_def)
next
  case (Some f)
  assume n: "\<not> is_ID_member m"
  show ?thesis
  proof (cases f)
    case FID
    with Some n show ?thesis by (simp add: is_ID_member_def)
  next
    case FStatus
    with Some show ?thesis
      by (simp add: decode_member_def set_ID_def Let_def split: prod.splits)
  next
    case FItems
    with Some show ?thesis
      by (simp add: decode_member_def store_items_set_ID)
  qed
qed

lemma decode_members_set_ID:
  "list_all (\<lambda>m. \<not> is_ID_member m) ms \<Longrightarrow>
   decode_members d ms (set_ID v st) = set_ID v (decode_members d ms st)"
  by (induction ms arbitrary: st) (simp_all add: decode_member_set_ID)

lemma decode_member_ID:
  "is_ID_member m \<Longrightarrow> int_value (snd m) \<Longrightarrow> \<exists>v. decode_member d m st = set_ID v st"
  using store_int_typed [of "snd m" "ID (tkt st)" "saved st"]
  by (auto simp: decode_member_def is_ID_member_def set_ID_def Let_def split: prod.splits)

lemma without_ID_no_ID: "list_all (\<lambda>m. \<not> is_ID_member m) (without_ID ms)"
  by (simp add: without_ID_def list_all_iff)

lemma decode_members_without_ID:
  "ID_members_typed ms \<Longrightarrow>
   \<exists>v. decode_members d ms st = set_ID v (decode_members d (without_ID ms) st)"
proof (induction ms arbitrary: st)
  case Nil
  have "decode_members d [] st = set_ID (ID (tkt st)) (decode_members d (without_ID []) st)"
    by (simp add: without_ID_def set_ID_same)
  then show ?case by blast
next
  case (Cons m ms)
  from Cons.prems have t: "ID_members_typed ms"
    by (simp add: ID_members_typed_def)
  show ?case
  proof (cases "is_ID_member m")
    case True
    with Cons.prems have "int_value (snd m)"
      by (simp add: ID_members_typed_def)
    then obtain u where u: "decode_member d m st = set_ID u st"
      using decode_member_ID [OF True] by blast
    obtain v where v: "decode_members d ms (set_ID u st)
        = set_ID v (decode_members d (without_ID ms) (set_ID u st))"
      using Cons.IH [OF t] by blast
    have "decode_members d (m # ms) st = set_ID v (decode_members d (without_ID (m # ms)) st)"
      using True u v
      by (simp add: without_ID_def [symmetric] decode_members_set_ID [OF without_ID_no_ID]
          set_ID_set_ID)
         (simp add: without_ID_def)
    then show ?thesis by blast
  next
    case False
    obtain v where v: "decode_members d ms (decode_member d m st)
        = set_ID v (decode_members d (without_ID ms) (decode_member d m st))"
      using Cons.IH [OF t] by blast
    have "decode_members d (m # ms) st = set_ID v (decode_members d (without_ID (m # ms)) st)"
      using False v by (simp add: without_ID_def)
    then show ?thesis by blast
  qed
qed

text \<open>Decoding what the encoder wrote.\<close>

lemma field_of_ID: "field_of ''ID'' = Some FID"
  by (simp add: field_of_def to_upper_def)

lemma field_of_Status: "field_of ''Status'' = Some FStatus"
  by (simp add: field_of_def to_upper_def)

lemma field_of_Items: "field_of ''Items'' = Some FItems"
  by (simp add: field_of_def to_upper_def)

lemma array_elems_strings:
  "array_elems (map JStr xs) b sv = (map coerce_utf8 xs, drop (length xs) b, sv)"
proof (induction xs arbitrary: b)
  case Nil
  show ?case by simp
next
  case (Cons x xs)
  show ?case
    by (cases b) (simp_all add: Cons)
qed

lemma store_items_strings:
  "store_items (JArr (map JStr xs)) \<lparr>tkt = t, spare = [], saved = sv\<rparr>
     = \<lparr>tkt = t\<lparr>Items := Some (map coerce_utf8 xs)\<rparr>, spare = [], saved = sv\<rparr>" if "Items t = None"
proof (cases xs)
  case Nil
  then show ?thesis by simp
next
  case (Cons y ys)
  have "array_elems (JStr y # map JStr ys) [] sv = (map coerce_utf8 (y # ys), [], sv)"
    using array_elems_strings [of "y # ys" "[]" sv] by simp
  with Cons that show ?thesis by simp
qed

lemma unmarshal_encode_Ticket:
  "unmarshal d (encode_Ticket t) zero_Ticket
     = (t\<lparr>Items := map_option (map coerce_utf8) (Items t)\<rparr>, None)"
proof (cases "Items t")
  case None
  then show ?thesis
    by (simp add: unmarshal_def encode_Ticket_def decode_member_def field_of_ID field_of_Status
        field_of_Items ParseInt_FormatInt zero_Ticket_def)
next
  case (Some xs)
  have m: "map (\<lambda>s. JStr (coerce_utf8 s)) xs = map JStr (map coerce_utf8 xs)"
    by simp
  have mm: "map coerce_utf8 (map coerce_utf8 xs) = map coerce_utf8 xs"
    by (simp add: coerce_utf8_idem)
  show ?thesis
    using Some
    by (simp add: unmarshal_def encode_Ticket_def decode_member_def field_of_ID field_of_Status
        field_of_Items ParseInt_FormatInt zero_Ticket_def m mm store_items_strings
        del: map_map)
qed

lemma utf8_items_coerce:
  "(t\<lparr>Items := map_option (map coerce_utf8) (Items t)\<rparr> = t) = utf8_items t"
proof (cases "Items t")
  case None
  then show ?thesis by (simp add: utf8_items_def)
next
  case (Some xs)
  have "(map coerce_utf8 xs = xs) = list_all valid_utf8 xs"
    by (induction xs) (simp_all add: valid_utf8_iff)
  moreover have "(t\<lparr>Items := Some (map coerce_utf8 xs)\<rparr> = t) = (map coerce_utf8 xs = xs)"
  proof
    assume "t\<lparr>Items := Some (map coerce_utf8 xs)\<rparr> = t"
    then have "Items (t\<lparr>Items := Some (map coerce_utf8 xs)\<rparr>) = Items t" by simp
    with Some show "map coerce_utf8 xs = xs" by simp
  next
    assume "map coerce_utf8 xs = xs"
    with Some show "t\<lparr>Items := Some (map coerce_utf8 xs)\<rparr> = t" by simp
  qed
  ultimately show ?thesis using Some by (simp add: utf8_items_def)
qed

lemma Decode_encode_Ticket:
  "(Decode d (Some (encode_Ticket t)) zero_Ticket = (t, None)) = utf8_items t"
  by (simp add: Decode_def unmarshal_encode_Ticket utf8_items_coerce)

text \<open>Values and members that are sure to save an error.\<close>

lemma store_string_untyped: "\<not> string_value j \<Longrightarrow> snd (store_string j old sv) \<noteq> None"
  by (cases j) (simp_all add: saveError_not_None)

lemma array_elems_untyped:
  "list_ex (\<lambda>j. \<not> string_value j) js \<Longrightarrow> snd (snd (array_elems js b sv)) \<noteq> None"
proof (induction js arbitrary: b sv)
  case Nil
  then show ?case by simp
next
  case (Cons j js)
  obtain s sv1 where a: "store_string j (case b of [] \<Rightarrow> [] | x # xs \<Rightarrow> x) sv = (s, sv1)"
    by (cases "store_string j (case b of [] \<Rightarrow> [] | x # xs \<Rightarrow> x) sv")
  show ?case
  proof (cases "string_value j")
    case True
    with Cons.prems have "list_ex (\<lambda>j. \<not> string_value j) js" by simp
    then show ?thesis
      using Cons.IH [of "case b of [] \<Rightarrow> [] | x # xs \<Rightarrow> xs" sv1] a
      by (auto simp: Let_def split: prod.splits)
  next
    case False
    then obtain e where "sv1 = Some e"
      using store_string_untyped [of j "case b of [] \<Rightarrow> [] | x # xs \<Rightarrow> x" sv] a by auto
    then show ?thesis
      using array_elems_saved [of js "case b of [] \<Rightarrow> [] | x # xs \<Rightarrow> xs" e] a
      by (auto simp: Let_def split: prod.splits)
  qed
qed

lemma outside_schema_not_string: "outside_schema j \<Longrightarrow> \<not> string_value j"
  by (cases j) simp_all

lemma store_int_outside: "outside_schema j \<Longrightarrow> snd (store_int j v sv) \<noteq> None"
  by (cases j) (simp_all add: saveError_not_None)

lemma store_items_outside: "outside_schema j \<Longrightarrow> saved (store_items j st) \<noteq> None"
proof (cases j)
  case (JArr js)
  assume o: "outside_schema j"
  with JArr have ex: "list_ex outside_schema js" by simp
  then have ex': "list_ex (\<lambda>j. \<not> string_value j) js"
    using outside_schema_not_string by (auto simp: list_ex_iff)
  from ex obtain x xs where c: "js = x # xs" by (cases js) auto
  show ?thesis
    using JArr c ex'
      array_elems_untyped [of "x # xs" "(case Items (tkt st) of None \<Rightarrow> [] | Some ys \<Rightarrow> ys) @ spare st" "saved st"]
    by (auto simp: Let_def split: prod.splits)
qed (simp_all add: saveError_not_None)

lemma decode_member_outside:
  "field_of (fst m) = None \<or> outside_schema (snd m) \<Longrightarrow> saved (decode_member True m st) \<noteq> None"
proof (cases "field_of (fst m)")
  case None
  then show ?thesis by (simp add: decode_member_unknown)
next
  case (Some f)
  assume "field_of (fst m) = None \<or> outside_schema (snd m)"
  with Some have o: "outside_schema (snd m)" by simp
  show ?thesis
    using Some o store_int_outside [OF o, of "ID (tkt st)" "saved st"]
      store_int_outside [OF o, of "Status (tkt st)" "saved st"] store_items_outside [OF o, of st]
    by (cases f) (auto simp: decode_member_def Let_def split: prod.splits)
qed

lemma decode_members_outside:
  "list_ex (\<lambda>m. field_of (fst m) = None \<or> outside_schema (snd m)) ms \<Longrightarrow>
   saved (decode_members True ms st) \<noteq> None"
proof (induction ms arbitrary: st)
  case Nil
  then show ?case by simp
next
  case (Cons m ms)
  show ?case
  proof (cases "field_of (fst m) = None \<or> outside_schema (snd m)")
    case True
    then obtain e where "saved (decode_member True m st) = Some e"
      using decode_member_outside [of m st] by auto
    then show ?thesis
      by (simp add: decode_members_saved)
  next
    case False
    with Cons show ?thesis by simp
  qed
qed

lemma Decode_outside: "has_unknown_field body \<Longrightarrow> snd (Decode True body t) \<noteq> None"
proof (cases body)
  case None
  then show ?thesis by (simp add: Decode_def)
next
  case (Some j)
  assume "has_unknown_field body"
  with Some have o: "outside_schema j" by (simp add: has_unknown_field_def)
  show ?thesis
  proof (cases j)
    case (JObj ms)
    with o have "list_ex (\<lambda>m. field_of (fst m) = None \<or> outside_schema (snd m)) ms" by simp
    then show ?thesis
      using Some JObj decode_members_outside [of ms "\<lparr>tkt = t, spare = [], saved = None\<rparr>"]
      by (simp add: Decode_def unmarshal_def Let_def)
  qed (use o Some in \<open>simp_all add: Decode_def unmarshal_def\<close>)
qed

lemma typed_body_decodes:
  "list_all member_typed ms \<Longrightarrow> items_member ms = Some (JArr js) \<Longrightarrow>
   \<exists>t. Decode True (Some (JObj ms)) zero_Ticket = (t, None) \<and> Items t \<noteq> None"
proof -
  assume ty: "list_all member_typed ms" and it: "items_member ms = Some (JArr js)"
  define st where "st = decode_members True ms \<lparr>tkt = zero_Ticket, spare = [], saved = None\<rparr>"
  have sv: "saved st = None"
    using decode_members_typed [OF ty, of True "\<lparr>tkt = zero_Ticket, spare = [], saved = None\<rparr>"]
    by (simp add: st_def)
  then have "Items (tkt st) \<noteq> None"
    using decode_members_Items_nil [of True ms "\<lparr>tkt = zero_Ticket, spare = [], saved = None\<rparr>"] it
    by (simp add: st_def)
  with sv show ?thesis
    by (simp add: Decode_def unmarshal_def Let_def st_def [symmetric])
qed

section \<open>Properties of the handlers\<close>

lemmas handler_defs =
  ServeHTTP_def createTicket_def getTicket_def getTicketFromRequestBody_def Decode_def
  unmarshal_def isTicketValid_def zero_Ticket_def WriteHeader_def Encode_def no_response_def
  StatusOK_def StatusAccepted_def StatusBadRequest_def StatusNotFound_def STATUS_PENDING_def
  StubKitchenStore_def stub_StoreTicket_def InMemoryKitchenStore_def post_request_def
  newGetTicketRequest_def

lemmas decoder_defs =
  decode_member_def field_of_def to_upper_def saveError_def coerce_utf8.simps rune_len_def
  seq_ok_def

lemmas strconv_defs =
  TrimPrefix_def Atoi_def ParseInt_def ParseUint_def is_digit_def FormatInt_def digits.simps
  char_of_eq_iff

lemma bad_request:
  "WriteHeader StatusBadRequest no_response = \<lparr>Code = Some 400, Written = []\<rparr>"
  by (simp add: WriteHeader_def no_response_def StatusBadRequest_def)

lemma not_found:
  "WriteHeader StatusNotFound no_response = \<lparr>Code = Some 404, Written = []\<rparr>"
  by (simp add: WriteHeader_def no_response_def StatusNotFound_def)

lemma ok_with:
  "Encode j (WriteHeader StatusOK no_response) = \<lparr>Code = Some 200, Written = [j]\<rparr>"
  by (simp add: Encode_def WriteHeader_def no_response_def StatusOK_def)

lemma accepted_with:
  "Encode j (WriteHeader StatusAccepted no_response) = \<lparr>Code = Some 202, Written = [j]\<rparr>"
  by (simp add: Encode_def WriteHeader_def no_response_def StatusAccepted_def)

lemma createTicket_rejected:
  "getTicketFromRequestBody (Body r) = Inl e \<Longrightarrow>
   createTicket k s r = (s, [], \<lparr>Code = Some 400, Written = []\<rparr>)"
  by (simp add: createTicket_def bad_request)

lemma createTicket_stored:
  "getTicketFromRequestBody (Body r) = Inr t \<Longrightarrow>
   StoreTicket k s (t\<lparr>Status := STATUS_PENDING\<rparr>) = (s', Inr n) \<Longrightarrow>
   createTicket k s r =
     (s', [CallStoreTicket (t\<lparr>Status := STATUS_PENDING\<rparr>)],
      \<lparr>Code = Some 202, Written = [JObj [(''ID'', JNum (FormatInt n))]]\<rparr>)"
  by (simp add: createTicket_def accepted_with Let_def)

lemma getTicketFromRequestBody_Inl:
  "snd (Decode True body zero_Ticket) \<noteq> None \<or> \<not> isTicketValid (fst (Decode True body zero_Ticket))
   \<Longrightarrow> \<exists>e. getTicketFromRequestBody body = Inl e"
  by (auto simp: getTicketFromRequestBody_def split: prod.splits option.splits)

lemma getTicketFromRequestBody_Inr:
  "Decode True body zero_Ticket = (t, None) \<Longrightarrow> Items t \<noteq> None \<Longrightarrow>
   getTicketFromRequestBody body = Inr t"
  by (simp add: getTicketFromRequestBody_def isTicketValid_def)

lemma getTicketFromRequestBody_JObj:
  "getTicketFromRequestBody (Some (JObj ms)) =
     (let st = decode_members True ms \<lparr>tkt = zero_Ticket, spare = [], saved = None\<rparr>
      in case saved st of
           Some e \<Rightarrow> Inl (UnableToUnmarshal e)
         | None \<Rightarrow> if Items (tkt st) = None then Inl EmptyFields else Inr (tkt st))"
  by (auto simp: getTicketFromRequestBody_def Decode_def unmarshal_def isTicketValid_def Let_def
      split: option.splits)

lemma items_absent_rejected:
  "items_absent_or_null body \<Longrightarrow> \<exists>e. getTicketFromRequestBody body = Inl e"
proof (cases body)
  case None
  then show ?thesis
    by (simp add: getTicketFromRequestBody_def Decode_def)
next
  case (Some j)
  assume a: "items_absent_or_null body"
  show ?thesis
  proof (cases j)
    case (JObj ms)
    define st where "st = decode_members True ms \<lparr>tkt = zero_Ticket, spare = [], saved = None\<rparr>"
    show ?thesis
    proof (cases "saved st")
      case None
      from a Some JObj have "items_member ms = None \<or> items_member ms = Some JNull"
        by (simp add: items_absent_or_null_def)
      then have "Items (tkt st) = None"
        using decode_members_Items_nil [of True ms "\<lparr>tkt = zero_Ticket, spare = [], saved = None\<rparr>"] None
        by (auto simp: st_def zero_Ticket_def)
      with None Some JObj show ?thesis
        by (simp add: getTicketFromRequestBody_JObj st_def [symmetric])
    next
      case (Some e)
      with \<open>body = Some j\<close> JObj show ?thesis
        by (simp add: getTicketFromRequestBody_JObj st_def [symmetric])
    qed
  qed (use Some in \<open>simp_all add: getTicketFromRequestBody_def Decode_def unmarshal_def
        isTicketValid_def zero_Ticket_def\<close>)
qed

lemma TrimPrefix_append: "TrimPrefix (p @ x) p = x"
  by (simp add: TrimPrefix_def)

lemma getTicket_newGetTicketRequest:
  "getTicket k s (newGetTicketRequest i) =
     (case GetTicketByID k s i of
        (s', Inl e) \<Rightarrow> (s', [CallGetTicketByID i], \<lparr>Code = Some 404, Written = []\<rparr>)
      | (s', Inr t) \<Rightarrow> (s', [CallGetTicketByID i], \<lparr>Code = Some 200, Written = [encode_Ticket t]\<rparr>))"
proof -
  have "TrimPrefix (Path (newGetTicketRequest i)) ''/ticket/'' = FormatInt i"
    unfolding newGetTicketRequest_def using TrimPrefix_append [of "''/ticket/''" "FormatInt i"]
    by simp
  then show ?thesis
    by (simp add: getTicket_def Atoi_def ParseInt_FormatInt not_found ok_with
        split: prod.splits sum.splits)
qed

lemma ServeHTTP_GET: "ServeHTTP k s (newGetTicketRequest i) = getTicket k s (newGetTicketRequest i)"
  by (simp add: ServeHTTP_def newGetTicketRequest_def)

lemma ServeHTTP_POST: "Method r = ''POST'' \<Longrightarrow> ServeHTTP k s r = createTicket k s r"
  by (simp add: ServeHTTP_def)

section \<open>Properties of the stub store\<close>

lemma stub_GetTicketByID_Inr:
  "stub_GetTicketByID s i = Inr t \<Longrightarrow> t \<in> set s \<and> ID t = i"
  by (induction s) (auto split: if_splits)

lemma stub_GetTicketByID_first:
  "stub_GetTicketByID s i = Inr t \<Longrightarrow>
   \<exists>pre post. s = pre @ t # post \<and> (\<forall>q \<in> set pre. ID q \<noteq> i) \<and> ID t = i"
proof (induction s)
  case Nil
  then show ?case by simp
next
  case (Cons a s)
  show ?case
  proof (cases "ID a = i")
    case True
    with Cons.prems have "a # s = [] @ t # s \<and> (\<forall>q \<in> set []. ID q \<noteq> i) \<and> ID t = i"
      by simp
    then show ?thesis by blast
  next
    case False
    with Cons obtain pre post where "s = pre @ t # post" "\<forall>q \<in> set pre. ID q \<noteq> i" "ID t = i"
      by auto
    with False have "a # s = (a # pre) @ t # post \<and> (\<forall>q \<in> set (a # pre). ID q \<noteq> i) \<and> ID t = i"
      by simp
    then show ?thesis by blast
  qed
qed

lemma stub_GetTicketByID_Inl:
  "(\<exists>e. stub_GetTicketByID s i = Inl e) = (\<forall>t \<in> set s. ID t \<noteq> i)"
  by (induction s) auto

lemma stub_GetTicketByID_found:
  "t \<in> set s \<Longrightarrow> ID t = i \<Longrightarrow> \<exists>t'. stub_GetTicketByID s i = Inr t'"
  using stub_GetTicketByID_Inl [of s i] by (cases "stub_GetTicketByID s i") auto

lemma stub_GetTicketByID_last:
  "\<forall>q \<in> set s. ID q \<noteq> ID p \<Longrightarrow> stub_GetTicketByID (s @ [p]) (ID p) = Inr p"
  by (induction s) auto

lemma createTicket_stub:
  "getTicketFromRequestBody (Body r) = Inr t \<Longrightarrow>
   createTicket StubKitchenStore s r =
     (s @ [\<lparr>ID = of_nat (length s), Status = 0, Items = Items t\<rparr>],
      [CallStoreTicket (t\<lparr>Status := STATUS_PENDING\<rparr>)],
      \<lparr>Code = Some 202, Written = [JObj [(''ID'', JNum (FormatInt (of_nat (length s))))]]\<rparr>)"
proof -
  assume d: "getTicketFromRequestBody (Body r) = Inr t"
  have "StoreTicket StubKitchenStore s (t\<lparr>Status := STATUS_PENDING\<rparr>)
      = (s @ [\<lparr>ID = of_nat (length s), Status = 0, Items = Items t\<rparr>], Inr (of_nat (length s)))"
    by (simp add: StubKitchenStore_def stub_StoreTicket_def STATUS_PENDING_def)
  then show ?thesis
    by (rule createTicket_stored [OF d])
qed

lemma createTicket_stub_ID:
  "createTicket StubKitchenStore s \<lparr>Method = m, Path = p, Body = Some (JObj ms)\<rparr>
     = (let st = decode_members True ms \<lparr>tkt = zero_Ticket, spare = [], saved = None\<rparr>
        in if saved st = None \<and> Items (tkt st) \<noteq> None
           then (s @ [\<lparr>ID = of_nat (length s), Status = 0, Items = Items (tkt st)\<rparr>],
                 [CallStoreTicket ((tkt st)\<lparr>Status := STATUS_PENDING\<rparr>)],
                 \<lparr>Code = Some 202, Written = [JObj [(''ID'', JNum (FormatInt (of_nat (length s))))]]\<rparr>)
           else (s, [], \<lparr>Code = Some 400, Written = []\<rparr>))"
proof -
  define st where "st = decode_members True ms \<lparr>tkt = zero_Ticket, spare = [], saved = None\<rparr>"
  define r where "r = \<lparr>Method = m, Path = p, Body = Some (JObj ms)\<rparr>"
  have b: "Body r = Some (JObj ms)" by (simp add: r_def)
  show ?thesis
  proof (cases "saved st = None \<and> Items (tkt st) \<noteq> None")
    case True
    then have "getTicketFromRequestBody (Body r) = Inr (tkt st)"
      by (auto simp: b getTicketFromRequestBody_JObj st_def [symmetric])
    then show ?thesis
      using True createTicket_stub [of r "tkt st" s]
      by (simp add: r_def st_def [symmetric] Let_def)
  next
    case False
    then obtain e where "getTicketFromRequestBody (Body r) = Inl e"
      by (cases "saved st") (auto simp: b getTicketFromRequestBody_JObj st_def [symmetric])
    then show ?thesis
      using False createTicket_rejected [of r e StubKitchenStore s]
      by (simp add: r_def st_def [symmetric] Let_def)
  qed
qed

lemma stub_StoreTicket_eq:
  "StoreTicket StubKitchenStore s t = (s @ [t\<lparr>ID := of_nat (length s)\<rparr>], Inr (of_nat (length s)))"
  by (simp add: StubKitchenStore_def stub_StoreTicket_def)

lemma store_all_stub:
  "store_all StubKitchenStore s0 ts =
     (s0 @ map (\<lambda>(n, t). t\<lparr>ID := of_nat n\<rparr>) (zip [length s0..<length s0 + length ts] ts),
      map (\<lambda>n. Inr (of_nat n)) [length s0..<length s0 + length ts])"
proof (induction ts arbitrary: s0)
  case Nil
  show ?case by simp
next
  case (Cons t ts)
  have u: "[length s0..<length s0 + length (t # ts)]
      = length s0 # [Suc (length s0)..<Suc (length s0) + length ts]"
    by (subst upt_rec) simp
  show ?case
    by (simp only: store_all.simps stub_StoreTicket_eq Cons.IH u)
       (simp add: Let_def)
qed

lemma map_ID_zip:
  "length ns = length ts \<Longrightarrow> map ID (map (\<lambda>(n, t). t\<lparr>ID := of_nat n\<rparr>) (zip ns ts)) = map of_nat ns"
  by (induction ns ts rule: list_induct2) simp_all

lemma IDs_increasing:
  "n \<le> 2 ^ 63 \<Longrightarrow> sorted_wrt (\<lambda>a b. sint a < sint b) (map of_nat [0..<n] :: go_int list)"
proof -
  assume n: "n \<le> 2 ^ 63"
  have "sorted_wrt (\<lambda>x y. sint (of_nat x :: go_int) < sint (of_nat y :: go_int)) [0..<n]"
  proof (rule sorted_wrt_mono_rel [of _ "(<)"])
    fix x y
    assume "x \<in> set [0..<n]" "y \<in> set [0..<n]" "x < y"
    with n have "x < 2 ^ 63" "y < 2 ^ 63" by simp_all
    then show "sint (of_nat x :: go_int) < sint (of_nat y :: go_int)"
      using \<open>x < y\<close> by (simp add: sint_of_nat_small)
  next
    show "sorted_wrt (<) [0..<n]" by (rule sorted_wrt_upt)
  qed
  then show ?thesis by (simp add: sorted_wrt_map)
qed

lemma increasing_distinct:
  "sorted_wrt (\<lambda>a b. sint a < sint b) (xs :: go_int list) \<Longrightarrow> distinct xs"
  by (induction xs) auto

section \<open>The claims\<close>

text \<open>
  Claim C1. When the body of a POST decodes and validates to a ticket \<open>t\<close>, the stub
  store gains one ticket \<open>p\<close> at its end. Its \<open>Status\<close> is PENDING (0) whatever the
  \<open>Status\<close> of \<open>t\<close>, its items are those of \<open>t\<close>, and its \<open>ID\<close> is the number written in
  the body \<open>{"ID": n}\<close> of the 202 response, which parses back to it. Where no earlier
  ticket of the store has that \<open>ID\<close>, fetching it returns \<open>p\<close>.
\<close>

theorem create_persists_pending:
  "Method r = ''POST'' \<Longrightarrow> getTicketFromRequestBody (Body r) = Inr t \<Longrightarrow>
   \<exists>p. ServeHTTP StubKitchenStore s r =
         (s @ [p], [CallStoreTicket (t\<lparr>Status := STATUS_PENDING\<rparr>)],
          \<lparr>Code = Some 202, Written = [JObj [(''ID'', JNum (FormatInt (ID p)))]]\<rparr>) \<and>
       p = \<lparr>ID = of_nat (length s), Status = 0, Items = Items t\<rparr> \<and>
       ParseInt (FormatInt (ID p)) = Inr (ID p) \<and>
       ((\<forall>q \<in> set s. ID q \<noteq> ID p) \<longrightarrow> stub_GetTicketByID (s @ [p]) (ID p) = Inr p)"
proof -
  assume m: "Method r = ''POST''" and d: "getTicketFromRequestBody (Body r) = Inr t"
  define p where "p = \<lparr>ID = of_nat (length s), Status = 0, Items = Items t\<rparr>"
  have st: "StoreTicket StubKitchenStore s (t\<lparr>Status := STATUS_PENDING\<rparr>) = (s @ [p], Inr (ID p))"
    by (simp add: StubKitchenStore_def stub_StoreTicket_def p_def STATUS_PENDING_def)
  have "ServeHTTP StubKitchenStore s r =
         (s @ [p], [CallStoreTicket (t\<lparr>Status := STATUS_PENDING\<rparr>)],
          \<lparr>Code = Some 202, Written = [JObj [(''ID'', JNum (FormatInt (ID p)))]]\<rparr>)"
    using createTicket_stored [OF d st] m by (simp add: ServeHTTP_POST)
  then show ?thesis
    using p_def stub_GetTicketByID_last [of s p] ParseInt_FormatInt [of "ID p"] by blast
qed

theorem create_persists_pending_witness:
  "\<exists>p. ServeHTTP StubKitchenStore []
          (post_request (Some (JObj [(''Status'', JNum ''2''), (''Items'', JArr [JStr ''pizza'', JStr ''water''])]))) =
         ([p], [CallStoreTicket \<lparr>ID = 0, Status = 0, Items = Some [''pizza'', ''water'']\<rparr>],
          \<lparr>Code = Some 202, Written = [JObj [(''ID'', JNum (FormatInt (ID p)))]]\<rparr>) \<and>
       p = \<lparr>ID = 0, Status = 0, Items = Some [''pizza'', ''water'']\<rparr> \<and>
       stub_GetTicketByID [p] (ID p) = Inr p"
  using create_persists_pending
    [of "post_request (Some (JObj [(''Status'', JNum ''2''), (''Items'', JArr [JStr ''pizza'', JStr ''water''])]))"
      "\<lparr>ID = 0, Status = 2, Items = Some [''pizza'', ''water'']\<rparr>" "[]"]
  by (simp add: post_request_def getTicketFromRequestBody_def Decode_def unmarshal_def decoder_defs
      isTicketValid_def zero_Ticket_def strconv_defs STATUS_PENDING_def)

text \<open>
  Claim C2, as the code has it. A body that is valid JSON with a non-null \<open>Items\<close>
  sequence and no unknown field is still rejected when a member is not of the type of
  its field: the decoder reports a type error for a string in \<open>ID\<close>.
\<close>

theorem nonnull_items_accepted_counterexample:
  "\<not> has_unknown_field (Some (JObj [(''ID'', JStr ''x''), (''Items'', JArr [JStr ''burger''])])) \<and>
   items_member [(''ID'', JStr ''x''), (''Items'', JArr [JStr ''burger''])] = Some (JArr [JStr ''burger'']) \<and>
   ServeHTTP StubKitchenStore []
     (post_request (Some (JObj [(''ID'', JStr ''x''), (''Items'', JArr [JStr ''burger''])])))
     = ([], [], \<lparr>Code = Some 400, Written = []\<rparr>)"
  by (simp add: has_unknown_field_def handler_defs decoder_defs)

text \<open>
  Claim C2, amended. When the body of a POST is a JSON object whose members all name
  a field of \<open>Ticket\<close> and hold a value of the field's type (for \<open>ID\<close> and \<open>Status\<close> an
  integer literal within the range of \<open>int\<close>, or null; for \<open>Items\<close> an array of strings
  or nulls, or null), whose last \<open>Items\<close> member is an array, and the store's
  \<open>StoreTicket\<close> returns \<open>n\<close> without an error, the handler answers 202 with the body
  \<open>{"ID": n}\<close>, for any store.
\<close>

theorem typed_body_accepted:
  "Method r = ''POST'' \<Longrightarrow> Body r = Some (JObj ms) \<Longrightarrow> list_all member_typed ms \<Longrightarrow>
   items_member ms = Some (JArr js) \<Longrightarrow>
   StoreTicket k s ((fst (Decode True (Body r) zero_Ticket))\<lparr>Status := STATUS_PENDING\<rparr>) = (s', Inr n) \<Longrightarrow>
   ServeHTTP k s r =
     (s', [CallStoreTicket ((fst (Decode True (Body r) zero_Ticket))\<lparr>Status := STATUS_PENDING\<rparr>)],
      \<lparr>Code = Some 202, Written = [JObj [(''ID'', JNum (FormatInt n))]]\<rparr>)"
proof -
  assume m: "Method r = ''POST''" and b: "Body r = Some (JObj ms)"
    and ty: "list_all member_typed ms" and it: "items_member ms = Some (JArr js)"
    and st: "StoreTicket k s ((fst (Decode True (Body r) zero_Ticket))\<lparr>Status := STATUS_PENDING\<rparr>) = (s', Inr n)"
  obtain t where t: "Decode True (Body r) zero_Ticket = (t, None)" "Items t \<noteq> None"
    using typed_body_decodes [OF ty it] b by auto
  then have g: "getTicketFromRequestBody (Body r) = Inr t"
    by (simp add: getTicketFromRequestBody_Inr)
  from st t have "StoreTicket k s (t\<lparr>Status := STATUS_PENDING\<rparr>) = (s', Inr n)" by simp
  then show ?thesis
    using createTicket_stored [OF g] m t by (simp add: ServeHTTP_POST)
qed

theorem typed_body_accepted_witness:
  "list_all member_typed [(''id'', JNum ''41''), (''Items'', JArr [JStr ''burger'', JStr ''fries''])] \<and>
   ServeHTTP InMemoryKitchenStore ()
     (post_request (Some (JObj [(''id'', JNum ''41''), (''Items'', JArr [JStr ''burger'', JStr ''fries''])])))
     = ((), [CallStoreTicket \<lparr>ID = 41, Status = 0, Items = Some [''burger'', ''fries'']\<rparr>],
        \<lparr>Code = Some 202, Written = [JObj [(''ID'', JNum (FormatInt 123))]]\<rparr>) \<and>
   FormatInt 123 = ''123''"
  using typed_body_accepted
    [of "post_request (Some (JObj [(''id'', JNum ''41''), (''Items'', JArr [JStr ''burger'', JStr ''fries''])]))"
      "[(''id'', JNum ''41''), (''Items'', JArr [JStr ''burger'', JStr ''fries''])]"
      "[JStr ''burger'', JStr ''fries'']" InMemoryKitchenStore "()" "()" 123]
  by (simp add: post_request_def member_typed_def decoder_defs Decode_def unmarshal_def
      zero_Ticket_def strconv_defs STATUS_PENDING_def InMemoryKitchenStore_def)

text \<open>
  Claim C3, as the code has it. The encoder replaces bytes that are not valid UTF-8,
  so a stored item that is not valid UTF-8 does not come back: the ticket decoded from
  the body of the 200 response differs from the stored one.
\<close>

theorem get_roundtrip_counterexample:
  "ServeHTTP StubKitchenStore [\<lparr>ID = 1, Status = 0, Items = Some [[CHR 0xFF]]\<rparr>] (newGetTicketRequest 1)
     = ([\<lparr>ID = 1, Status = 0, Items = Some [[CHR 0xFF]]\<rparr>], [CallGetTicketByID 1],
        \<lparr>Code = Some 200,
         Written = [JObj [(''ID'', JNum ''1''), (''Status'', JNum ''0''),
                          (''Items'', JArr [JStr [CHR 0xEF, CHR 0xBF, CHR 0xBD]])]]\<rparr>) \<and>
   Decode False (Some (JObj [(''ID'', JNum ''1''), (''Status'', JNum ''0''),
                             (''Items'', JArr [JStr [CHR 0xEF, CHR 0xBF, CHR 0xBD]])])) zero_Ticket
     = (\<lparr>ID = 1, Status = 0, Items = Some [[CHR 0xEF, CHR 0xBF, CHR 0xBD]]\<rparr>, None) \<and>
   \<lparr>ID = 1, Status = 0, Items = Some [[CHR 0xEF, CHR 0xBF, CHR 0xBD]]\<rparr>
     \<noteq> \<lparr>ID = 1 :: go_int, Status = 0 :: go_int, Items = Some [[CHR 0xFF]]\<rparr>"
  by (simp add: handler_defs decoder_defs strconv_defs encode_Ticket_def coerce_utf8.simps
      rune_len_def)

text \<open>
  Claim C3, amended. When the stub store holds a ticket with the requested \<open>ID\<close>, GET
  \<open>/ticket/{id}\<close> answers 200 with the encoding of the first stored ticket \<open>t'\<close> with
  that \<open>ID\<close>: the tickets stored before it have other IDs, and where the IDs of the
  store are distinct it is the one stored ticket with that \<open>ID\<close>. Decoding that body
  into a fresh ticket, with or without \<open>DisallowUnknownFields\<close>, gives \<open>t'\<close> back (same
  \<open>ID\<close>, \<open>Status\<close> and \<open>Items\<close>, nil and empty told apart) exactly when every item of
  \<open>t'\<close> is valid UTF-8.
\<close>

theorem get_roundtrip:
  "t \<in> set s \<Longrightarrow> ID t = i \<Longrightarrow>
   \<exists>pre t' post.
      s = pre @ t' # post \<and> (\<forall>q \<in> set pre. ID q \<noteq> i) \<and> ID t' = i \<and>
      ServeHTTP StubKitchenStore s (newGetTicketRequest i)
        = (s, [CallGetTicketByID i], \<lparr>Code = Some 200, Written = [encode_Ticket t']\<rparr>) \<and>
      (Decode d (Some (encode_Ticket t')) zero_Ticket = (t', None)) = utf8_items t' \<and>
      (distinct (map ID s) \<longrightarrow> t' = t)"
proof -
  assume t: "t \<in> set s" "ID t = i"
  obtain t' where g: "stub_GetTicketByID s i = Inr t'"
    using stub_GetTicketByID_found [OF t] by blast
  then obtain pre post where f: "s = pre @ t' # post" "\<forall>q \<in> set pre. ID q \<noteq> i" "ID t' = i"
    using stub_GetTicketByID_first by blast
  then have m: "t' \<in> set s" by simp
  have rt: "(Decode d (Some (encode_Ticket t')) zero_Ticket = (t', None)) = utf8_items t'"
    by (rule Decode_encode_Ticket)
  have sv: "ServeHTTP StubKitchenStore s (newGetTicketRequest i)
          = (s, [CallGetTicketByID i], \<lparr>Code = Some 200, Written = [encode_Ticket t']\<rparr>)"
    using g by (simp add: ServeHTTP_GET getTicket_newGetTicketRequest StubKitchenStore_def)
  have "distinct (map ID s) \<longrightarrow> t' = t"
  proof
    assume "distinct (map ID s)"
    then have "inj_on ID (set s)" by (simp add: distinct_map)
    with t m f(3) show "t' = t" by (auto dest: inj_onD)
  qed
  with f rt sv show ?thesis by blast
qed

theorem get_roundtrip_witness:
  "ServeHTTP StubKitchenStore
      [\<lparr>ID = 1, Status = 1, Items = Some [''burger'', ''fries'']\<rparr>,
       \<lparr>ID = 2, Status = 0, Items = Some [''pizza'', ''water'']\<rparr>] (newGetTicketRequest 2)
     = ([\<lparr>ID = 1, Status = 1, Items = Some [''burger'', ''fries'']\<rparr>,
         \<lparr>ID = 2, Status = 0, Items = Some [''pizza'', ''water'']\<rparr>],
        [CallGetTicketByID 2],
        \<lparr>Code = Some 200,
         Written = [encode_Ticket \<lparr>ID = 2, Status = 0, Items = Some [''pizza'', ''water'']\<rparr>]\<rparr>) \<and>
   encode_Ticket \<lparr>ID = 2, Status = 0, Items = Some [''pizza'', ''water'']\<rparr>
     = JObj [(''ID'', JNum ''2''), (''Status'', JNum ''0''),
             (''Items'', JArr [JStr ''pizza'', JStr ''water''])] \<and>
   utf8_items \<lparr>ID = 2, Status = 0, Items = Some [''pizza'', ''water'']\<rparr> \<and>
   Decode False (Some (encode_Ticket \<lparr>ID = 2, Status = 0, Items = Some [''pizza'', ''water'']\<rparr>)) zero_Ticket
     = (\<lparr>ID = 2, Status = 0, Items = Some [''pizza'', ''water'']\<rparr>, None)"
  using get_roundtrip
    [of "\<lparr>ID = 2, Status = 0, Items = Some [''pizza'', ''water'']\<rparr>"
      "[\<lparr>ID = 1, Status = 1, Items = Some [''burger'', ''fries'']\<rparr>,
        \<lparr>ID = 2, Status = 0, Items = Some [''pizza'', ''water'']\<rparr>]" 2 False]
  by (simp add: handler_defs decoder_defs strconv_defs encode_Ticket_def utf8_items_def
      valid_utf8_iff)

text \<open>
  Claim C4, as the code has it. \<open>InMemoryKitchenStore\<close> keeps no tickets and its
  \<open>GetTicketByID\<close> never fails, so a GET for an ID it does not hold is answered 200
  with the zero ticket, not 404.
\<close>

theorem absent_ID_not_found_counterexample:
  "ServeHTTP InMemoryKitchenStore () (newGetTicketRequest 3)
     = ((), [CallGetTicketByID 3],
        \<lparr>Code = Some 200,
         Written = [JObj [(''ID'', JNum ''0''), (''Status'', JNum ''0''), (''Items'', JNull)]]\<rparr>)"
  by (simp add: handler_defs strconv_defs encode_Ticket_def)

text \<open>
  Claim C4, amended. For the stub store, \<open>GetTicketByID\<close> fails exactly when no stored
  ticket has the ID, and a GET \<open>/ticket/{id}\<close> for such an ID is answered 404 with no
  body, the store unchanged. For any store, a \<open>GetTicketByID\<close> that fails is answered
  404 with no body.
\<close>

theorem absent_ID_not_found:
  "((\<exists>e. stub_GetTicketByID s i = Inl e) = (\<forall>t \<in> set s. ID t \<noteq> i)) \<and>
   ((\<forall>t \<in> set s. ID t \<noteq> i) \<longrightarrow>
      ServeHTTP StubKitchenStore s (newGetTicketRequest i)
        = (s, [CallGetTicketByID i], \<lparr>Code = Some 404, Written = []\<rparr>)) \<and>
   (GetTicketByID k s0 i = (s1, Inl e) \<longrightarrow>
      ServeHTTP k s0 (newGetTicketRequest i)
        = (s1, [CallGetTicketByID i], \<lparr>Code = Some 404, Written = []\<rparr>))"
proof (intro conjI impI)
  show "(\<exists>e. stub_GetTicketByID s i = Inl e) = (\<forall>t \<in> set s. ID t \<noteq> i)"
    by (rule stub_GetTicketByID_Inl)
next
  assume "\<forall>t \<in> set s. ID t \<noteq> i"
  then obtain e where "stub_GetTicketByID s i = Inl e"
    using stub_GetTicketByID_Inl [of s i] by blast
  then show "ServeHTTP StubKitchenStore s (newGetTicketRequest i)
        = (s, [CallGetTicketByID i], \<lparr>Code = Some 404, Written = []\<rparr>)"
    by (simp add: ServeHTTP_GET getTicket_newGetTicketRequest StubKitchenStore_def)
next
  assume "GetTicketByID k s0 i = (s1, Inl e)"
  then show "ServeHTTP k s0 (newGetTicketRequest i)
        = (s1, [CallGetTicketByID i], \<lparr>Code = Some 404, Written = []\<rparr>)"
    by (simp add: ServeHTTP_GET getTicket_newGetTicketRequest)
qed

theorem absent_ID_not_found_witness:
  "stub_GetTicketByID [\<lparr>ID = 1, Status = 1, Items = Some [''burger'', ''fries'']\<rparr>,
                       \<lparr>ID = 2, Status = 0, Items = Some [''pizza'', ''water'']\<rparr>] 3 = Inl (NoTicket 3) \<and>
   ServeHTTP StubKitchenStore
       [\<lparr>ID = 1, Status = 1, Items = Some [''burger'', ''fries'']\<rparr>,
        \<lparr>ID = 2, Status = 0, Items = Some [''pizza'', ''water'']\<rparr>] (newGetTicketRequest 3)
     = ([\<lparr>ID = 1, Status = 1, Items = Some [''burger'', ''fries'']\<rparr>,
         \<lparr>ID = 2, Status = 0, Items = Some [''pizza'', ''water'']\<rparr>],
        [CallGetTicketByID 3], \<lparr>Code = Some 404, Written = []\<rparr>)"
  using absent_ID_not_found
    [of "[\<lparr>ID = 1, Status = 1, Items = Some [''burger'', ''fries'']\<rparr>,
          \<lparr>ID = 2, Status = 0, Items = Some [''pizza'', ''water'']\<rparr>]" 3
      StubKitchenStore
      "[\<lparr>ID = 1, Status = 1, Items = Some [''burger'', ''fries'']\<rparr>,
        \<lparr>ID = 2, Status = 0, Items = Some [''pizza'', ''water'']\<rparr>]"
      "[\<lparr>ID = 1, Status = 1, Items = Some [''burger'', ''fries'']\<rparr>,
        \<lparr>ID = 2, Status = 0, Items = Some [''pizza'', ''water'']\<rparr>]" "NoTicket 3"]
  by (simp add: StubKitchenStore_def)

text \<open>
  Claim C5, as the code has it. Two bodies that differ only in the \<open>ID\<close> field are not
  always treated alike: an \<open>ID\<close> that is not an integer makes the decoder fail, and the
  request is answered 400, where the same body with an integer \<open>ID\<close> is answered 202.
\<close>

theorem client_ID_no_effect_counterexample:
  "without_ID [(''ID'', JNum ''1''), (''Items'', JArr [])] = without_ID [(''ID'', JStr ''x''), (''Items'', JArr [])] \<and>
   ServeHTTP StubKitchenStore [] (post_request (Some (JObj [(''ID'', JNum ''1''), (''Items'', JArr [])])))
     = ([\<lparr>ID = 0, Status = 0, Items = Some []\<rparr>],
        [CallStoreTicket \<lparr>ID = 1, Status = 0, Items = Some []\<rparr>],
        \<lparr>Code = Some 202, Written = [JObj [(''ID'', JNum ''0'')]]\<rparr>) \<and>
   ServeHTTP StubKitchenStore [] (post_request (Some (JObj [(''ID'', JStr ''x''), (''Items'', JArr [])])))
     = ([], [], \<lparr>Code = Some 400, Written = []\<rparr>)"
  by (simp add: without_ID_def is_ID_member_def handler_defs decoder_defs strconv_defs)

text \<open>
  Claim C5, amended. For two POST bodies that are JSON objects with the same members
  apart from those that name \<open>ID\<close>, and whose \<open>ID\<close> members each hold an integer
  literal within the range of \<open>int\<close> or null, the response (status and body) and the
  state of the stub store after the request are the same. The handler hands the
  decoded \<open>ID\<close> on to \<open>StoreTicket\<close>; it is the stub store that overwrites it.
\<close>

theorem client_ID_discarded:
  "without_ID ms1 = without_ID ms2 \<Longrightarrow> ID_members_typed ms1 \<Longrightarrow> ID_members_typed ms2 \<Longrightarrow>
   fst (ServeHTTP StubKitchenStore s (post_request (Some (JObj ms1))))
     = fst (ServeHTTP StubKitchenStore s (post_request (Some (JObj ms2)))) \<and>
   snd (snd (ServeHTTP StubKitchenStore s (post_request (Some (JObj ms1)))))
     = snd (snd (ServeHTTP StubKitchenStore s (post_request (Some (JObj ms2)))))"
proof -
  assume e: "without_ID ms1 = without_ID ms2"
    and t1: "ID_members_typed ms1" and t2: "ID_members_typed ms2"
  define st0 where "st0 = \<lparr>tkt = zero_Ticket, spare = [], saved = None\<rparr>"
  define X where "X = decode_members True (without_ID ms1) st0"
  obtain v1 where v1: "decode_members True ms1 st0 = set_ID v1 X"
    using decode_members_without_ID [OF t1, of True st0] by (auto simp: X_def)
  obtain v2 where v2: "decode_members True ms2 st0 = set_ID v2 X"
    using decode_members_without_ID [OF t2, of True st0] e by (auto simp: X_def)
  show ?thesis
    by (simp add: ServeHTTP_def post_request_def createTicket_stub_ID st0_def [symmetric] v1 v2
        set_ID_def Let_def)
qed

theorem client_ID_discarded_witness:
  "ID_members_typed [(''ID'', JNum ''7''), (''Items'', JArr [JStr ''pizza''])] \<and>
   ID_members_typed [(''Items'', JArr [JStr ''pizza'']), (''id'', JNum ''-3'')] \<and>
   fst (ServeHTTP StubKitchenStore [] (post_request (Some (JObj [(''ID'', JNum ''7''), (''Items'', JArr [JStr ''pizza''])]))))
     = [\<lparr>ID = 0, Status = 0, Items = Some [''pizza'']\<rparr>] \<and>
   fst (ServeHTTP StubKitchenStore [] (post_request (Some (JObj [(''Items'', JArr [JStr ''pizza'']), (''id'', JNum ''-3'')]))))
     = [\<lparr>ID = 0, Status = 0, Items = Some [''pizza'']\<rparr>] \<and>
   snd (snd (ServeHTTP StubKitchenStore [] (post_request (Some (JObj [(''ID'', JNum ''7''), (''Items'', JArr [JStr ''pizza''])])))))
     = snd (snd (ServeHTTP StubKitchenStore [] (post_request (Some (JObj [(''Items'', JArr [JStr ''pizza'']), (''id'', JNum ''-3'')])))))"
  using client_ID_discarded
    [of "[(''ID'', JNum ''7''), (''Items'', JArr [JStr ''pizza''])]"
      "[(''Items'', JArr [JStr ''pizza'']), (''id'', JNum ''-3'')]" "[]"]
  by (simp add: without_ID_def is_ID_member_def ID_members_typed_def handler_defs decoder_defs
      strconv_defs)

text \<open>
  Claim C6. A POST whose \<open>Items\<close> field is absent or null is answered 400 with no
  body and the store is not called, whatever else the body holds. A body that decodes
  to a ticket whose \<open>Items\<close> is the empty, non-nil sequence passes \<open>isTicketValid\<close> and
  is stored and answered 202. \<open>isTicketValid\<close> holds exactly when \<open>Items\<close> is not nil,
  so it holds for a sequence of any length.
\<close>

theorem items_absent_rejected_empty_accepted:
  "(Method r = ''POST'' \<and> items_absent_or_null (Body r) \<longrightarrow>
      ServeHTTP k s r = (s, [], \<lparr>Code = Some 400, Written = []\<rparr>)) \<and>
   (Method r = ''POST'' \<and> Decode True (Body r) zero_Ticket = (t, None) \<and> Items t = Some [] \<longrightarrow>
      isTicketValid t \<and>
      ServeHTTP StubKitchenStore s' r =
        (s' @ [\<lparr>ID = of_nat (length s'), Status = 0, Items = Some []\<rparr>],
         [CallStoreTicket (t\<lparr>Status := STATUS_PENDING\<rparr>)],
         \<lparr>Code = Some 202, Written = [JObj [(''ID'', JNum (FormatInt (of_nat (length s'))))]]\<rparr>)) \<and>
   isTicketValid u = (Items u \<noteq> None) \<and>
   isTicketValid (u\<lparr>Items := Some xs\<rparr>)"
proof (intro conjI impI)
  assume "Method r = ''POST'' \<and> items_absent_or_null (Body r)"
  then have m: "Method r = ''POST''" and a: "items_absent_or_null (Body r)" by simp_all
  from a obtain e where "getTicketFromRequestBody (Body r) = Inl e"
    using items_absent_rejected by blast
  then show "ServeHTTP k s r = (s, [], \<lparr>Code = Some 400, Written = []\<rparr>)"
    using m by (simp add: ServeHTTP_POST createTicket_rejected)
next
  assume h: "Method r = ''POST'' \<and> Decode True (Body r) zero_Ticket = (t, None) \<and> Items t = Some []"
  then show "isTicketValid t" by (simp add: isTicketValid_def)
  from h have "getTicketFromRequestBody (Body r) = Inr t"
    by (simp add: getTicketFromRequestBody_Inr)
  then show "ServeHTTP StubKitchenStore s' r =
        (s' @ [\<lparr>ID = of_nat (length s'), Status = 0, Items = Some []\<rparr>],
         [CallStoreTicket (t\<lparr>Status := STATUS_PENDING\<rparr>)],
         \<lparr>Code = Some 202, Written = [JObj [(''ID'', JNum (FormatInt (of_nat (length s'))))]]\<rparr>)"
    using h createTicket_stub [of r t s'] by (simp add: ServeHTTP_POST)
next
  show "isTicketValid u = (Items u \<noteq> None)" by (simp add: isTicketValid_def)
  show "isTicketValid (u\<lparr>Items := Some xs\<rparr>)" by (simp add: isTicketValid_def)
qed

theorem items_absent_rejected_empty_accepted_witness:
  "items_absent_or_null (Some (JObj [(''Status'', JNum ''1''), (''Items'', JNull)])) \<and>
   ServeHTTP StubKitchenStore [] (post_request (Some (JObj [(''Status'', JNum ''1''), (''Items'', JNull)])))
     = ([], [], \<lparr>Code = Some 400, Written = []\<rparr>) \<and>
   Decode True (Some (JObj [(''Items'', JArr [])])) zero_Ticket
     = (\<lparr>ID = 0, Status = 0, Items = Some []\<rparr>, None) \<and>
   ServeHTTP StubKitchenStore [] (post_request (Some (JObj [(''Items'', JArr [])])))
     = ([\<lparr>ID = 0, Status = 0, Items = Some []\<rparr>],
        [CallStoreTicket \<lparr>ID = 0, Status = 0, Items = Some []\<rparr>],
        \<lparr>Code = Some 202, Written = [JObj [(''ID'', JNum ''0'')]]\<rparr>)"
  using items_absent_rejected_empty_accepted
      [of "post_request (Some (JObj [(''Status'', JNum ''1''), (''Items'', JNull)]))"
        StubKitchenStore "[]" "\<lparr>ID = 0, Status = 0, Items = Some []\<rparr>" "[]"]
    items_absent_rejected_empty_accepted
      [of "post_request (Some (JObj [(''Items'', JArr [])]))"
        StubKitchenStore "[]" "\<lparr>ID = 0, Status = 0, Items = Some []\<rparr>" "[]"]
  by (simp add: post_request_def items_absent_or_null_def decoder_defs Decode_def unmarshal_def
      zero_Ticket_def strconv_defs STATUS_PENDING_def)

text \<open>
  Claim C7. A POST whose body contains a field outside the schema of \<open>Ticket\<close> is
  answered 400 with no body, and the store is not called: the decoder, with
  \<open>DisallowUnknownFields\<close> set, saves an error for the member instead of skipping it.
\<close>

theorem unknown_fields_rejected:
  "Method r = ''POST'' \<Longrightarrow> has_unknown_field (Body r) \<Longrightarrow>
   ServeHTTP k s r = (s, [], \<lparr>Code = Some 400, Written = []\<rparr>)"
proof -
  assume m: "Method r = ''POST''" and u: "has_unknown_field (Body r)"
  from u have "snd (Decode True (Body r) zero_Ticket) \<noteq> None"
    by (rule Decode_outside)
  then obtain e where "getTicketFromRequestBody (Body r) = Inl e"
    using getTicketFromRequestBody_Inl by blast
  then show ?thesis
    using m by (simp add: ServeHTTP_POST createTicket_rejected)
qed

theorem unknown_fields_rejected_witness:
  "has_unknown_field (Some (JObj [(''Items'', JArr [JStr ''burger'']), (''note'', JStr ''rare'')])) \<and>
   ServeHTTP StubKitchenStore []
     (post_request (Some (JObj [(''Items'', JArr [JStr ''burger'']), (''note'', JStr ''rare'')])))
     = ([], [], \<lparr>Code = Some 400, Written = []\<rparr>) \<and>
   fst (Decode False (Some (JObj [(''Items'', JArr [JStr ''burger'']), (''note'', JStr ''rare'')])) zero_Ticket)
     = \<lparr>ID = 0, Status = 0, Items = Some [''burger'']\<rparr>"
  using unknown_fields_rejected
    [of "post_request (Some (JObj [(''Items'', JArr [JStr ''burger'']), (''note'', JStr ''rare'')]))"
      StubKitchenStore "[]"]
  by (simp add: post_request_def has_unknown_field_def decoder_defs Decode_def unmarshal_def
      zero_Ticket_def)

text \<open>
  Claim C8, as the code has it. \<open>InMemoryKitchenStore\<close> returns the constant 123 from
  every \<open>StoreTicket\<close>: the IDs assigned by two successive store operations are equal,
  not increasing.
\<close>

theorem store_IDs_increasing_counterexample:
  "store_all InMemoryKitchenStore () [zero_Ticket, zero_Ticket] = ((), [Inr 123, Inr 123])"
  by (simp add: InMemoryKitchenStore_def)

text \<open>
  Claim C8, amended. In every state of the stub store reached from the empty store by
  a sequence of store operations (at most \<open>2 ^ 63\<close> of them, the bound of a Go slice
  length), the stored IDs are \<open>0, 1, 2, ...\<close> in the order of storing: strictly
  increasing as integers, pairwise distinct, and the ID each operation returned is the
  ID of the ticket it stored.
\<close>

theorem stub_IDs_distinct_increasing:
  "length ts \<le> 2 ^ 63 \<Longrightarrow> store_all StubKitchenStore [] ts = (s, rs) \<Longrightarrow>
   map ID s = map of_nat [0..<length ts] \<and>
   rs = map Inr (map ID s) \<and>
   sorted_wrt (\<lambda>a b. sint a < sint b) (map ID s) \<and>
   distinct (map ID s) \<and>
   map Items s = map Items ts \<and> map Status s = map Status ts"
proof -
  assume n: "length ts \<le> 2 ^ 63" and r: "store_all StubKitchenStore [] ts = (s, rs)"
  from r have s: "s = map (\<lambda>(n, t). t\<lparr>ID := of_nat n\<rparr>) (zip [0..<length ts] ts)"
    and rs: "rs = map (\<lambda>n. Inr (of_nat n)) [0..<length ts]"
    using store_all_stub [of "[]" ts] by simp_all
  have ids: "map ID s = map of_nat [0..<length ts]"
    unfolding s by (rule map_ID_zip) simp
  have inc: "sorted_wrt (\<lambda>a b. sint a < sint b) (map ID s)"
    unfolding ids using n by (rule IDs_increasing)
  have it: "map Items s = map Items ts \<and> map Status s = map Status ts"
    unfolding s by (induction ts rule: rev_induct) simp_all
  from ids rs inc increasing_distinct [OF inc] it show ?thesis
    by simp
qed

theorem stub_IDs_distinct_increasing_witness:
  "store_all StubKitchenStore []
      [\<lparr>ID = 9, Status = 0, Items = Some [''burger'']\<rparr>, \<lparr>ID = 9, Status = 0, Items = Some [''pizza'']\<rparr>]
     = ([\<lparr>ID = 0, Status = 0, Items = Some [''burger'']\<rparr>, \<lparr>ID = 1, Status = 0, Items = Some [''pizza'']\<rparr>],
        [Inr 0, Inr 1]) \<and>
   sorted_wrt (\<lambda>a b. sint a < sint b) [0, 1 :: go_int] \<and> distinct [0, 1 :: go_int]"
  using stub_IDs_distinct_increasing
    [of "[\<lparr>ID = 9, Status = 0, Items = Some [''burger'']\<rparr>, \<lparr>ID = 9, Status = 0, Items = Some [''pizza'']\<rparr>]"
      "[\<lparr>ID = 0, Status = 0, Items = Some [''burger'']\<rparr>, \<lparr>ID = 1, Status = 0, Items = Some [''pizza'']\<rparr>]"
      "[Inr 0, Inr 1]"]
  by (simp add: StubKitchenStore_def stub_StoreTicket_def)

text \<open>
  Claim C9. A request whose method is neither GET nor POST leaves the response as it
  was (no status code, nothing written to the body), makes no call on the store and
  leaves its state unchanged, whatever the store is.
\<close>

theorem other_methods_write_nothing:
  "Method r \<noteq> ''GET'' \<Longrightarrow> Method r \<noteq> ''POST'' \<Longrightarrow>
   ServeHTTP k s r = (s, [], \<lparr>Code = None, Written = []\<rparr>)"
  by (simp add: ServeHTTP_def no_response_def)

theorem other_methods_write_nothing_witness:
  "ServeHTTP StubKitchenStore [zero_Ticket] \<lparr>Method = ''DELETE'', Path = ''/ticket/0'', Body = None\<rparr>
     = ([zero_Ticket], [], \<lparr>Code = None, Written = []\<rparr>)"
  using other_methods_write_nothing
    [of "\<lparr>Method = ''DELETE'', Path = ''/ticket/0'', Body = None\<rparr>" StubKitchenStore "[zero_Ticket]"]
  by simp

text \<open>
  Claim C10. A POST whose body fails to decode, or decodes to a ticket that fails
  \<open>isTicketValid\<close>, is answered 400 with no body; no call is made on the store, and its
  state after the request is its state before, whatever the store is.
\<close>

theorem create_atomic_on_input_errors:
  "Method r = ''POST'' \<Longrightarrow>
   snd (Decode True (Body r) zero_Ticket) \<noteq> None \<or>
     \<not> isTicketValid (fst (Decode True (Body r) zero_Ticket)) \<Longrightarrow>
   ServeHTTP k s r = (s, [], \<lparr>Code = Some 400, Written = []\<rparr>)"
proof -
  assume m: "Method r = ''POST''"
    and f: "snd (Decode True (Body r) zero_Ticket) \<noteq> None \<or>
     \<not> isTicketValid (fst (Decode True (Body r) zero_Ticket))"
  from f obtain e where "getTicketFromRequestBody (Body r) = Inl e"
    using getTicketFromRequestBody_Inl by blast
  then show ?thesis
    using m by (simp add: ServeHTTP_def createTicket_rejected)
qed

theorem create_atomic_on_input_errors_witness:
  "ServeHTTP StubKitchenStore [zero_Ticket]
     (post_request (Some (JObj [(''text'', JStr ''this is an invalid ticket JSON'')])))
     = ([zero_Ticket], [], \<lparr>Code = Some 400, Written = []\<rparr>) \<and>
   ServeHTTP StubKitchenStore [zero_Ticket] (post_request (Some (JObj [(''ID'', JNum ''7'')])))
     = ([zero_Ticket], [], \<lparr>Code = Some 400, Written = []\<rparr>)"
  using create_atomic_on_input_errors
    [of "post_request (Some (JObj [(''text'', JStr ''this is an invalid ticket JSON'')]))"
      StubKitchenStore "[zero_Ticket]"]
    create_atomic_on_input_errors
    [of "post_request (Some (JObj [(''ID'', JNum ''7'')]))" StubKitchenStore "[zero_Ticket]"]
  by (simp add: post_request_def Decode_def unmarshal_def decoder_defs isTicketValid_def
      zero_Ticket_def strconv_defs)

end
